theory Spec2Isabelle
  imports Complex_Main "HOL-Library.AList" "HOL-Library.Char_ord" "HOL-Library.List_Lexorder"
begin

section \<open>JavaScript values\<close>

text \<open>
  The localization module works on untyped JavaScript data: message values, result
  documents (the LHR, a config) and the records built from them.

  A number is an IEEE double. The module never looks into one: it divides, multiplies
  and rounds. The type \<open>'n\<close> of the numbers is therefore left open, and so are these
  operations, which belong to the host (below); nothing is assumed about them, so that
  what is proved holds for the doubles with their rounding, their infinities and their
  \<^verbatim>\<open>NaN\<close>.

  Objects and arrays are mutable and are held by reference: \<open>JRef a\<close> is the object or
  array at the address \<open>a\<close> of the heap (below). A string is a list of characters (the
  code units below 256). \<open>JBuiltin n\<close> stands for the member \<open>n\<close> that every plain
  object inherits from \<^verbatim>\<open>Object.prototype\<close>; it is what a property read yields
  for such a name when the object has no property of its own under it.
\<close>

type_synonym addr = nat

datatype 'n jsval =
    JUndefined
  | JNull
  | JBool bool
  | JNum 'n
  | JStr string
  | JRef addr
  | JBuiltin string

text \<open>The own enumerable properties of an object, in the order of \<^verbatim>\<open>Object.keys\<close>.\<close>

type_synonym 'n jsrecord = "(string \<times> 'n jsval) list"

text \<open>The property names of \<^verbatim>\<open>Object.prototype\<close> (ECMAScript, with Annex B).\<close>

definition Object_prototype :: "string list" where
  "Object_prototype =
     [''constructor'', ''hasOwnProperty'', ''isPrototypeOf'', ''propertyIsEnumerable'',
      ''toLocaleString'', ''toString'', ''valueOf'', ''__proto__'',
      ''__defineGetter__'', ''__defineSetter__'', ''__lookupGetter__'', ''__lookupSetter__'']"

text \<open>
  \<^verbatim>\<open>key in obj\<close>: an own property, or one inherited from the prototype. The records
  of the module are plain objects: object literals, the default \<^verbatim>\<open>{}\<close> of a
  parameter, parsed JSON.
\<close>

definition js_in :: "string \<Rightarrow> 'n jsrecord \<Rightarrow> bool" where
  "js_in key obj \<longleftrightarrow> key \<in> fst ` set obj \<or> key \<in> set Object_prototype"

text \<open>\<^verbatim>\<open>obj[key]\<close> as a read.\<close>

definition js_get :: "'n jsrecord \<Rightarrow> string \<Rightarrow> 'n jsval" where
  "js_get obj key =
     (case map_of obj key of
        Some v \<Rightarrow> v
      | None \<Rightarrow> if key \<in> set Object_prototype then JBuiltin key else JUndefined)"

text \<open>
  \<^verbatim>\<open>obj[key] = v\<close> on a record that was created as \<^verbatim>\<open>{}\<close> and is only
  written through this assignment, with the values of a record of strings and numbers.
  The name \<^verbatim>\<open>__proto__\<close> is an accessor of the prototype: assigning a string, a
  number, \<^verbatim>\<open>undefined\<close> or the prototype itself to it changes nothing. Every
  other name becomes (or updates) an own property.
\<close>

definition js_set :: "'n jsrecord \<Rightarrow> string \<Rightarrow> 'n jsval \<Rightarrow> 'n jsrecord" where
  "js_set obj key v = (if key = ''__proto__'' then obj else AList.update key v obj)"

section \<open>ICU messages (message.js)\<close>

text \<open>
  The functions keep their names, without the underscore that some of them begin with:
  \<open>preformatValues\<close> is \<^verbatim>\<open>_preformatValues\<close>, and likewise
  \<open>formatMessage\<close>, \<open>localizeIcuMessage\<close> and \<open>formatPathAsString\<close>. An
  exception thrown is a result \<open>Inl\<close> of the error, a value returned a result
  \<open>Inr\<close>.
\<close>

text \<open>
  The syntax tree that \<^verbatim>\<open>intl-messageformat-parser\<close> returns. The style of a
  number, date or time format is optional. A plural format carries its ordinal flag and
  offset, and its options: a selector with the elements of the option's pattern. A
  select format has options of the same kind.
\<close>

datatype element =
    MessageTextElement string
  | ArgumentElement string "elementFormat option"
and elementFormat =
    numberFormat "string option"
  | dateFormat "string option"
  | timeFormat "string option"
  | pluralFormat bool int "(string \<times> element list) list"
  | selectFormat "(string \<times> element list) list"

text \<open>An argument element as the code reads it: \<^verbatim>\<open>{id, format}\<close>.\<close>

type_synonym argumentElement = "string \<times> elementFormat option"

text \<open>A \<^verbatim>\<open>Map\<close> keeps its keys in insertion order; \<^verbatim>\<open>set\<close> on a key that is
  present replaces the value where it stands.\<close>

type_synonym elementMap = "(string \<times> argumentElement) list"

text \<open>The number formats handed to the formatter.\<close>

record numberOptions =
  minimumFractionDigits :: "nat option"
  maximumFractionDigits :: "nat option"
  style :: "string option"

definition formats :: "(string \<times> numberOptions) list" where
  "formats =
     [(''bytes'', \<lparr>minimumFractionDigits = None, maximumFractionDigits = Some 0, style = None\<rparr>),
      (''milliseconds'',
         \<lparr>minimumFractionDigits = None, maximumFractionDigits = Some 0, style = None\<rparr>),
      (''seconds'',
         \<lparr>minimumFractionDigits = Some 1, maximumFractionDigits = Some 1, style = None\<rparr>),
      (''extendedPercent'',
         \<lparr>minimumFractionDigits = None, maximumFractionDigits = Some 2,
          style = Some ''percent''\<rparr>)]"

text \<open>The errors thrown: those of the module by their message, the error of the
  library, and the error of the engine when the call stack is used up.\<close>

datatype error =
    ValueNotProvided string string
  | NotANumber string string
  | NoPlaceholder string string
  | UnsupportedLocale string
  | InvalidIcuMessageType
  | CannotHandle string
  | UnexpectedMessage string
  | InvalidMessageId string
  | LibraryError string
  | CallStackExceeded

text \<open>
  A \<^verbatim>\<open>MessageFormat\<close> instance of the external library
  \<^verbatim>\<open>intl-messageformat\<close>: the elements of its syntax tree and its
  \<^verbatim>\<open>format\<close> method.
\<close>

record 'n formatter =
  getAst :: "element list"
  format :: "'n jsrecord \<Rightarrow> error + string"

text \<open>
  The host: what the module takes from outside, and what the functions below take as
  their first argument.
  \<^item> \<open>MessageFormat\<close> is the constructor of the library. It takes the message, the
    locale and the number formats, and throws on a message it cannot parse.
  \<^item> \<open>num\<close>, \<open>num_divide\<close>, \<open>num_times\<close> and \<open>Math_round\<close> are the
    arithmetic of the language on its numbers: the value of a decimal literal,
    \<^verbatim>\<open>/\<close>, \<^verbatim>\<open>*\<close> and \<^verbatim>\<open>Math.round\<close>.
  \<^item> \<open>hasIntlSupport\<close> says whether
    \<^verbatim>\<open>Intl.NumberFormat.supportedLocalesOf\<close> returns a locale.
  \<^item> \<open>CANONICAL_LOCALES\<close> is what the module reads from the file system when it
    loads.
  \<^item> \<open>callStackSize\<close> is the number of nested calls that the engine allows before it
    throws its \<^verbatim>\<open>RangeError\<close>.
\<close>

record 'n host =
  MessageFormat :: "string \<Rightarrow> string \<Rightarrow> (string \<times> numberOptions) list \<Rightarrow> error + 'n formatter"
  num :: "nat \<Rightarrow> 'n"
  num_divide :: "'n \<Rightarrow> 'n \<Rightarrow> 'n"
  num_times :: "'n \<Rightarrow> 'n \<Rightarrow> 'n"
  Math_round :: "'n \<Rightarrow> 'n"
  hasIntlSupport :: "string \<Rightarrow> bool"
  CANONICAL_LOCALES :: "string list"
  callStackSize :: nat

fun collectAllCustomElementsFromICU :: "element list \<Rightarrow> elementMap \<Rightarrow> elementMap"
  and collectFromOptions :: "(string \<times> element list) list \<Rightarrow> elementMap \<Rightarrow> elementMap"
where
  "collectAllCustomElementsFromICU [] seenElementsById = seenElementsById"
| "collectAllCustomElementsFromICU (MessageTextElement t # icuElements) seenElementsById =
     collectAllCustomElementsFromICU icuElements seenElementsById"
| "collectAllCustomElementsFromICU (ArgumentElement i fmt # icuElements) seenElementsById =
     (let seen = AList.update i (i, fmt) seenElementsById in
      case fmt of
        Some (pluralFormat ordinal offset options) \<Rightarrow>
          collectAllCustomElementsFromICU icuElements (collectFromOptions options seen)
      | _ \<Rightarrow> collectAllCustomElementsFromICU icuElements seen)"
| "collectFromOptions [] seenElementsById = seenElementsById"
| "collectFromOptions ((selector, elements) # options) seenElementsById =
     collectFromOptions options (collectAllCustomElementsFromICU elements seenElementsById)"

text \<open>
  The first loop of \<^verbatim>\<open>_preformatValues\<close>, over the argument elements of the map:
  a value that is missing or, for a number format, not a number throws; a numeric value
  of a number format is converted by the format's style, in the arithmetic of the host.
\<close>

fun preformatElements ::
  "'n host \<Rightarrow> argumentElement list \<Rightarrow> 'n jsrecord \<Rightarrow> string \<Rightarrow> 'n jsrecord
     \<Rightarrow> error + 'n jsrecord"
where
  "preformatElements h [] values lhlMessage formattedValues = Inr formattedValues"
| "preformatElements h ((i, fmt) # argumentElements) values lhlMessage formattedValues =
     (if i \<noteq> [] \<and> \<not> js_in i values then Inl (ValueNotProvided lhlMessage i)
      else
        let v = js_get values i in
        case fmt of
          Some (numberFormat sty) \<Rightarrow>
            (case v of
               JNum n \<Rightarrow>
                 preformatElements h argumentElements values lhlMessage
                   (js_set formattedValues i
                      (if sty = Some ''milliseconds''
                         then JNum (num_times h (Math_round h (num_divide h n (num h 10)))
                                      (num h 10))
                       else if sty = Some ''seconds'' \<and> i = ''timeInMs''
                         then JNum (num_divide h (Math_round h (num_divide h n (num h 100)))
                                      (num h 10))
                       else if sty = Some ''bytes'' then JNum (num_divide h n (num h 1024))
                       else JNum n))
             | _ \<Rightarrow> Inl (NotANumber lhlMessage i))
        | _ \<Rightarrow>
            preformatElements h argumentElements values lhlMessage
              (js_set formattedValues i v))"

text \<open>
  The second loop, over \<^verbatim>\<open>Object.keys(values)\<close>: a provided value without a
  placeholder throws, \<^verbatim>\<open>errorCode\<close> apart, which is copied.
\<close>

fun checkProvidedValues ::
  "string list \<Rightarrow> 'n jsrecord \<Rightarrow> string \<Rightarrow> 'n jsrecord \<Rightarrow> error + 'n jsrecord"
where
  "checkProvidedValues [] values lhlMessage formattedValues = Inr formattedValues"
| "checkProvidedValues (valueId # valueIds) values lhlMessage formattedValues =
     (if js_in valueId formattedValues
        then checkProvidedValues valueIds values lhlMessage formattedValues
      else if valueId = ''errorCode''
        then checkProvidedValues valueIds values lhlMessage
               (js_set formattedValues ''errorCode'' (js_get values ''errorCode''))
      else Inl (NoPlaceholder valueId lhlMessage))"

definition preformatValues ::
  "'n host \<Rightarrow> 'n formatter \<Rightarrow> 'n jsrecord \<Rightarrow> string \<Rightarrow> error + 'n jsrecord"
where
  "preformatValues h messageFormatter values lhlMessage =
     (let elementMap = collectAllCustomElementsFromICU (getAst messageFormatter) [];
          argumentElements = map snd elementMap
      in case preformatElements h argumentElements values lhlMessage [] of
           Inl e \<Rightarrow> Inl e
         | Inr formattedValues \<Rightarrow>
             checkProvidedValues (map fst values) values lhlMessage formattedValues)"

text \<open>
  \<^verbatim>\<open>_formatMessage(message, values = {}, locale)\<close>; \<open>None\<close> is the omitted (or
  \<^verbatim>\<open>undefined\<close>) second argument, for which the default \<^verbatim>\<open>{}\<close> stands in.
\<close>

definition formatMessage ::
  "'n host \<Rightarrow> string \<Rightarrow> 'n jsrecord option \<Rightarrow> string \<Rightarrow> error + string"
where
  "formatMessage h message values locale =
     (let values = (case values of None \<Rightarrow> [] | Some r \<Rightarrow> r);
          localeForMessageFormat =
            (if locale = ''en-XA'' \<or> locale = ''en-XL'' then ''de-DE'' else locale)
      in case MessageFormat h message localeForMessageFormat formats of
           Inl e \<Rightarrow> Inl e
         | Inr formatter \<Rightarrow>
             (case preformatValues h formatter values message of
                Inl e \<Rightarrow> Inl e
              | Inr valuesForMessageFormat \<Rightarrow> format formatter valuesForMessageFormat))"

section \<open>Localized messages (the i18n module)\<close>

subsection \<open>The heap\<close>

text \<open>
  The objects and arrays of a document, by their address. An object is the list of its
  own enumerable properties, an array the list of its elements. The walk over a
  document writes into its objects and arrays, so that what is written is seen wherever
  the same object is held.
\<close>

datatype 'n jsobject =
    JObject "'n jsrecord"
  | JArray "'n jsval list"

type_synonym 'n heap = "(addr \<times> 'n jsobject) list"

subsection \<open>Type verifiers\<close>

text \<open>
  Modelled from the spec: \<^verbatim>\<open>type-verifiers.js\<close> is required by the module and is not
  among the sources. Its two predicates are read at their names and at the type guards
  of their callers: a value of type \<^verbatim>\<open>object\<close> that is not \<^verbatim>\<open>null\<close>, and such
  a value that is not an array. Of the built-in members only the prototype object
  (\<^verbatim>\<open>__proto__\<close>) is an object; the others are functions.
\<close>

definition isObjectOrArrayOfUnknownValues :: "'n jsval \<Rightarrow> bool" where
  "isObjectOrArrayOfUnknownValues val =
     (case val of
        JRef a \<Rightarrow> True
      | JBuiltin n \<Rightarrow> n = ''__proto__''
      | _ \<Rightarrow> False)"

definition isObjectOfUnknownValues :: "'n heap \<Rightarrow> 'n jsval \<Rightarrow> bool" where
  "isObjectOfUnknownValues heap val =
     (isObjectOrArrayOfUnknownValues val \<and>
      (case val of
         JRef a \<Rightarrow> (case map_of heap a of Some (JArray xs) \<Rightarrow> False | _ \<Rightarrow> True)
       | _ \<Rightarrow> True))"

subsection \<open>Strings and regular expressions\<close>

text \<open>The class \<^verbatim>\<open>\s\<close>, as far as it lies in the characters of a \<open>string\<close>:
  tab, line feed, vertical tab, form feed, carriage return, space, no-break space.\<close>

definition isWhitespace :: "char \<Rightarrow> bool" where
  "isWhitespace c \<longleftrightarrow>
     c \<in> set [CHR 0x09, CHR 0x0A, CHR 0x0B, CHR 0x0C, CHR 0x0D, CHR 0x20, CHR 0xA0]"

text \<open>The class \<^verbatim>\<open>[a-z]\<close> under the flag \<^verbatim>\<open>i\<close>.\<close>

definition isLetter :: "char \<Rightarrow> bool" where
  "isLetter c \<longleftrightarrow> c \<in> set ''abcdefghijklmnopqrstuvwxyzABCDEFGHIJKLMNOPQRSTUVWXYZ''"

text \<open>
  \<^verbatim>\<open>MESSAGE_I18N_ID_REGEX\<close> is \<^verbatim>\<open>/ | [^\s]+$/\<close>. The bar is not escaped: the
  pattern is an alternation of two. The first alternative is one space. The second is
  a space, followed by one or more characters that are not white space, up to the end
  of the string. \<open>MESSAGE_I18N_ID_REGEX_at\<close> is a match that begins at the start of a
  string; \<^verbatim>\<open>test\<close> looks for a match that begins at any position.
\<close>

definition MESSAGE_I18N_ID_REGEX_at :: "string \<Rightarrow> bool" where
  "MESSAGE_I18N_ID_REGEX_at s \<longleftrightarrow>
     take 1 s = '' '' \<or>
     (take 1 s = '' '' \<and> drop 1 s \<noteq> [] \<and> list_all (\<lambda>c. \<not> isWhitespace c) (drop 1 s))"

fun MESSAGE_I18N_ID_REGEX_test :: "string \<Rightarrow> bool" where
  "MESSAGE_I18N_ID_REGEX_test [] = False"
| "MESSAGE_I18N_ID_REGEX_test (c # cs) =
     (MESSAGE_I18N_ID_REGEX_at (c # cs) \<or> MESSAGE_I18N_ID_REGEX_test cs)"

text \<open>The decimal numeral of an array index, as \<^verbatim>\<open>Object.entries\<close> gives it.\<close>

fun indexString :: "nat \<Rightarrow> string" where
  "indexString n =
     (if n < 10 then [char_of (48 + n)]
      else indexString (n div 10) @ [char_of (48 + n mod 10)])"

declare indexString.simps [simp del]

text \<open>\<^verbatim>\<open>Object.entries\<close> and \<^verbatim>\<open>Object.values\<close> of a value, in a heap. The
  prototype object has no enumerable property. A reference always has its object in the
  heap; the case that it has none is there for the shape of the definition only.\<close>

definition Object_entries :: "'n heap \<Rightarrow> 'n jsval \<Rightarrow> (string \<times> 'n jsval) list" where
  "Object_entries heap val =
     (case val of
        JRef a \<Rightarrow>
          (case map_of heap a of
             Some (JObject ps) \<Rightarrow> ps
           | Some (JArray xs) \<Rightarrow> zip (map indexString [0..<length xs]) xs
           | None \<Rightarrow> [])
      | _ \<Rightarrow> [])"

definition Object_values :: "'n heap \<Rightarrow> 'n jsval \<Rightarrow> 'n jsval list" where
  "Object_values heap val = map snd (Object_entries heap val)"

text \<open>\<^verbatim>\<open>val[key]\<close> read on a value, for the names that the module reads
  (\<^verbatim>\<open>i18nId\<close>, \<^verbatim>\<open>values\<close>, \<^verbatim>\<open>formattedDefault\<close>): only an object has
  properties to find here.\<close>

definition js_prop :: "'n heap \<Rightarrow> 'n jsval \<Rightarrow> string \<Rightarrow> 'n jsval" where
  "js_prop heap val key =
     (case val of
        JRef a \<Rightarrow> (case map_of heap a of Some (JObject ps) \<Rightarrow> js_get ps key | _ \<Rightarrow> JUndefined)
      | _ \<Rightarrow> JUndefined)"

text \<open>
  \<^verbatim>\<open>subObject[property] = v\<close>, for a property that \<^verbatim>\<open>Object.entries\<close> has
  listed: the own property of that name of an object, the element at that index of an
  array.
\<close>

definition writeProperty :: "'n heap \<Rightarrow> 'n jsval \<Rightarrow> string \<Rightarrow> 'n jsval \<Rightarrow> 'n heap" where
  "writeProperty heap subObject property v =
     (case subObject of
        JRef a \<Rightarrow>
          (case map_of heap a of
             Some (JObject ps) \<Rightarrow> AList.update a (JObject (AList.update property v ps)) heap
           | Some (JArray xs) \<Rightarrow>
               AList.update a
                 (JArray (map (\<lambda>(k, x). if k = property then v else x)
                            (zip (map indexString [0..<length xs]) xs))) heap
           | None \<Rightarrow> heap)
      | _ \<Rightarrow> heap)"

subsection \<open>The message store and the messages\<close>

text \<open>
  \<^verbatim>\<open>LOCALE_MESSAGES\<close>, the module's only variable state: for a locale, the messages
  of that locale by their id. It is loaded from \<^verbatim>\<open>locales.js\<close>, so every function
  that reads it takes it as an argument. A locale is one of the tags of
  \<^verbatim>\<open>LH.Locale\<close>, and a message id that is used as a key has passed
  \<^verbatim>\<open>MESSAGE_I18N_ID_REGEX\<close>, so that it has a space in it; neither is the name of
  a built-in member.
\<close>

record lhlMessage =
  message :: string

type_synonym LhlMessages = "(string \<times> lhlMessage) list"

type_synonym LocaleMessages = "(string \<times> LhlMessages) list"

text \<open>An \<^verbatim>\<open>LH.IcuMessage\<close>, for the code that reads a value at that type.\<close>

record 'n IcuMessage =
  i18nId :: string
  "values" :: "'n jsrecord option"
  formattedDefault :: string

definition localizeIcuMessage ::
  "'n host \<Rightarrow> LocaleMessages \<Rightarrow> 'n IcuMessage \<Rightarrow> string \<Rightarrow> error + string"
where
  "localizeIcuMessage h LOCALE_MESSAGES icuMessage locale =
     (case map_of LOCALE_MESSAGES locale of
        None \<Rightarrow> Inl (UnsupportedLocale locale)
      | Some localeMessages \<Rightarrow>
          (case map_of localeMessages (i18nId icuMessage) of
             None \<Rightarrow> Inr (formattedDefault icuMessage)
           | Some localeMessage \<Rightarrow>
               formatMessage h (message localeMessage) (IcuMessage.values icuMessage) locale))"

definition isIcuMessage :: "'n heap \<Rightarrow> 'n jsval \<Rightarrow> bool" where
  "isIcuMessage heap icuMessageOrNot =
     (if \<not> isObjectOfUnknownValues heap icuMessageOrNot then False
      else
        let i = js_prop heap icuMessageOrNot ''i18nId'';
            vs = js_prop heap icuMessageOrNot ''values'';
            d = js_prop heap icuMessageOrNot ''formattedDefault''
        in case i of
             JStr i18n \<Rightarrow>
               (case d of
                  JStr formatted \<Rightarrow>
                    (if vs \<noteq> JUndefined \<and>
                        (\<not> isObjectOfUnknownValues heap vs \<or>
                         list_ex (\<lambda>v. case v of JStr s \<Rightarrow> False | JNum n \<Rightarrow> False | _ \<Rightarrow> True)
                           (Object_values heap vs))
                       then False
                     else MESSAGE_I18N_ID_REGEX_test i18n)
                | _ \<Rightarrow> False)
           | _ \<Rightarrow> False)"

text \<open>
  A value that passed \<^verbatim>\<open>isIcuMessage\<close>, read at the type the guard gives it. Its
  values are absent or an object, which is read here as the record of its properties;
  the prototype object, the one built-in member that is an object, has no enumerable
  property.
\<close>

definition asIcuMessage :: "'n heap \<Rightarrow> 'n jsval \<Rightarrow> 'n IcuMessage" where
  "asIcuMessage heap v =
     \<lparr>i18nId = (case js_prop heap v ''i18nId'' of JStr s \<Rightarrow> s | _ \<Rightarrow> []),
      values =
        (case js_prop heap v ''values'' of
           JRef a \<Rightarrow> Some (Object_entries heap (JRef a))
         | JBuiltin n \<Rightarrow> Some []
         | _ \<Rightarrow> None),
      formattedDefault = (case js_prop heap v ''formattedDefault'' of JStr s \<Rightarrow> s | _ \<Rightarrow> [])\<rparr>"

definition getFormatted ::
  "'n host \<Rightarrow> LocaleMessages \<Rightarrow> 'n heap \<Rightarrow> 'n jsval \<Rightarrow> string \<Rightarrow> error + string"
where
  "getFormatted h LOCALE_MESSAGES heap icuMessageOrRawString locale =
     (if isIcuMessage heap icuMessageOrRawString
        then localizeIcuMessage h LOCALE_MESSAGES
               (asIcuMessage heap icuMessageOrRawString) locale
      else case icuMessageOrRawString of
             JStr s \<Rightarrow> Inr s
           | _ \<Rightarrow> Inl InvalidIcuMessageType)"

subsection \<open>Replacing the messages of a document\<close>

fun formatPathLoop :: "string \<Rightarrow> string list \<Rightarrow> error + string" where
  "formatPathLoop pathAsString [] = Inr pathAsString"
| "formatPathLoop pathAsString (property # pathInLHR) =
     (if property \<noteq> [] \<and> list_all isLetter property
        then formatPathLoop
               ((if pathAsString \<noteq> [] then pathAsString @ ''.'' else pathAsString) @ property)
               pathInLHR
      else if list_ex (\<lambda>c. c = CHR '']'' \<or> c = CHR 0x22 \<or> c = CHR 0x27 \<or> isWhitespace c)
                property
        then Inl (CannotHandle property)
      else formatPathLoop (pathAsString @ ''['' @ property @ '']'') pathInLHR)"

definition formatPathAsString :: "string list \<Rightarrow> error + string" where
  "formatPathAsString pathInLHR = formatPathLoop [] pathInLHR"

text \<open>
  An entry of \<^verbatim>\<open>LH.Result.IcuMessagePaths\<close>: the path alone, or the message's values
  with the path. The values are the values object of the message, which the walk never
  writes into (its properties are strings and numbers); they are kept as the record of
  that object. The map is keyed by message ids, which have passed
  \<^verbatim>\<open>isIcuMessage\<close>.
\<close>

datatype 'n icuMessagePath =
    PathString string
  | ValuesAndPath "'n jsrecord" string

type_synonym 'n IcuMessagePaths = "(string \<times> 'n icuMessagePath list) list"

text \<open>
  The loop of \<^verbatim>\<open>replaceInObject\<close> over the array that
  \<^verbatim>\<open>Object.entries(subObject)\<close> has returned. Its first argument is the function
  that it calls on a value that is no message: \<^verbatim>\<open>replaceInObject\<close> itself. It
  writes into the heap and into the paths; both are returned as they stand after the
  loop. When the walk throws, the error is all that is kept of it.
\<close>

fun replaceInEntries ::
    "('n heap \<Rightarrow> 'n jsval \<Rightarrow> 'n IcuMessagePaths \<Rightarrow> string list
        \<Rightarrow> error + 'n heap \<times> 'n IcuMessagePaths)
       \<Rightarrow> 'n host \<Rightarrow> LocaleMessages \<Rightarrow> string \<Rightarrow> 'n heap \<Rightarrow> 'n jsval
       \<Rightarrow> (string \<times> 'n jsval) list \<Rightarrow> 'n IcuMessagePaths
       \<Rightarrow> string list \<Rightarrow> error + 'n heap \<times> 'n IcuMessagePaths"
where
  "replaceInEntries replaceInObject h LM locale heap subObject [] icuMessagePaths pathInLHR =
     Inr (heap, icuMessagePaths)"
| "replaceInEntries replaceInObject h LM locale heap subObject
       ((property, possibleIcuMessage) # entries) icuMessagePaths pathInLHR =
     (let currentPathInLHR = pathInLHR @ [property] in
      if isIcuMessage heap possibleIcuMessage then
        (case getFormatted h LM heap possibleIcuMessage locale of
           Inl e \<Rightarrow> Inl e
         | Inr formattedString \<Rightarrow>
             (let icu = asIcuMessage heap possibleIcuMessage;
                  messageInstancesInLHR =
                    (case map_of icuMessagePaths (i18nId icu) of Some l \<Rightarrow> l | None \<Rightarrow> [])
              in (case formatPathAsString currentPathInLHR of
                    Inl e \<Rightarrow> Inl e
                  | Inr currentPathAsString \<Rightarrow>
                      (let pushed =
                             messageInstancesInLHR @
                               [case IcuMessage.values icu of
                                  Some vs \<Rightarrow> ValuesAndPath vs currentPathAsString
                                | None \<Rightarrow> PathString currentPathAsString]
                       in replaceInEntries replaceInObject h LM locale
                            (writeProperty heap subObject property (JStr formattedString))
                            subObject entries
                            (AList.update (i18nId icu) pushed icuMessagePaths) pathInLHR))))
      else
        (case replaceInObject heap possibleIcuMessage icuMessagePaths currentPathInLHR of
           Inl e \<Rightarrow> Inl e
         | Inr (heap', paths) \<Rightarrow>
             replaceInEntries replaceInObject h LM locale heap' subObject entries paths
               pathInLHR))"

text \<open>
  \<^verbatim>\<open>replaceInObject\<close>. The first argument is the number of nested calls that the
  call stack still has room for: a document that holds itself is walked until the engine
  throws.
\<close>

primrec replaceInObject ::
    "nat \<Rightarrow> 'n host \<Rightarrow> LocaleMessages \<Rightarrow> string \<Rightarrow> 'n heap \<Rightarrow> 'n jsval \<Rightarrow> 'n IcuMessagePaths
       \<Rightarrow> string list \<Rightarrow> error + 'n heap \<times> 'n IcuMessagePaths"
where
  "replaceInObject 0 h LM locale heap subObject icuMessagePaths pathInLHR =
     Inl CallStackExceeded"
| "replaceInObject (Suc depth) h LM locale heap subObject icuMessagePaths pathInLHR =
     (if \<not> isObjectOrArrayOfUnknownValues subObject then Inr (heap, icuMessagePaths)
      else replaceInEntries (replaceInObject depth h LM locale) h LM locale heap subObject
             (Object_entries heap subObject) icuMessagePaths pathInLHR)"

text \<open>
  \<^verbatim>\<open>replaceIcuMessages\<close> returns the paths; the document it was given has changed
  when it returns, and the heap is returned here with them.
\<close>

definition replaceIcuMessages ::
  "'n host \<Rightarrow> LocaleMessages \<Rightarrow> 'n heap \<Rightarrow> 'n jsval \<Rightarrow> string
     \<Rightarrow> error + 'n heap \<times> 'n IcuMessagePaths"
where
  "replaceIcuMessages h LOCALE_MESSAGES heap inputObject locale =
     replaceInObject (callStackSize h) h LOCALE_MESSAGES locale heap inputObject [] []"

subsection \<open>Message ids, renderer strings and locales\<close>

text \<open>\<^verbatim>\<open>s.split(' | ')\<close>: the pieces between the occurrences of the separator, found
  from the left.\<close>

function splitBar :: "string \<Rightarrow> string \<Rightarrow> string list" where
  "splitBar piece [] = [piece]"
| "splitBar piece (c # cs) =
     (if take 3 (c # cs) = '' | '' then piece # splitBar [] (drop 3 (c # cs))
      else splitBar (piece @ [c]) cs)"
  by pat_completeness auto
termination
  by (relation "measure (\<lambda>(piece, s). length s)") simp_all

text \<open>\<^verbatim>\<open>getIcuMessageIdParts\<close>: the first two pieces. An id that has a space and no
  separator has one piece only, and its key is \<^verbatim>\<open>undefined\<close>: \<open>None\<close>. The split
  of a string always has a first piece; the last case is for the shape of the definition
  only.\<close>

definition getIcuMessageIdParts :: "string \<Rightarrow> error + string \<times> string option" where
  "getIcuMessageIdParts i18nMessageId =
     (if \<not> MESSAGE_I18N_ID_REGEX_test i18nMessageId then Inl (InvalidMessageId i18nMessageId)
      else case splitBar [] i18nMessageId of
             filename # key # others \<Rightarrow> Inr (filename, Some key)
           | [filename] \<Rightarrow> Inr (filename, None)
           | [] \<Rightarrow> Inr ([], None))"

definition startsWith :: "string \<Rightarrow> string \<Rightarrow> bool" where
  "startsWith s p \<longleftrightarrow> take (length p) s = p"

definition endsWith :: "string \<Rightarrow> string \<Rightarrow> bool" where
  "endsWith s p \<longleftrightarrow> length p \<le> length s \<and> drop (length s - length p) s = p"

text \<open>The loop of \<^verbatim>\<open>getRendererFormattedStrings\<close>. A key that is
  \<^verbatim>\<open>undefined\<close> names the property \<^verbatim>\<open>undefined\<close>.\<close>

fun collectRendererStrings ::
  "LhlMessages \<Rightarrow> string list \<Rightarrow> 'n jsrecord \<Rightarrow> error + 'n jsrecord"
where
  "collectRendererStrings localeMessages [] strings = Inr strings"
| "collectRendererStrings localeMessages (icuMessageId # icuMessageIds) strings =
     (case getIcuMessageIdParts icuMessageId of
        Inl e \<Rightarrow> Inl e
      | Inr (filename, key) \<Rightarrow>
          if \<not> endsWith filename ''util.js'' then Inl (UnexpectedMessage icuMessageId)
          else collectRendererStrings localeMessages icuMessageIds
                 (js_set strings (case key of Some k \<Rightarrow> k | None \<Rightarrow> ''undefined'')
                    (case map_of localeMessages icuMessageId of
                       Some m \<Rightarrow> JStr (message m)
                     | None \<Rightarrow> JUndefined)))"

definition getRendererFormattedStrings ::
  "LocaleMessages \<Rightarrow> string \<Rightarrow> error + 'n jsrecord"
where
  "getRendererFormattedStrings LOCALE_MESSAGES locale =
     (case map_of LOCALE_MESSAGES locale of
        None \<Rightarrow> Inl (UnsupportedLocale locale)
      | Some localeMessages \<Rightarrow>
          collectRendererStrings localeMessages
            (filter (\<lambda>f. startsWith f ''report/'') (map fst localeMessages)) [])"

definition hasLocale :: "'n host \<Rightarrow> LocaleMessages \<Rightarrow> string \<Rightarrow> bool" where
  "hasLocale h LOCALE_MESSAGES requestedLocale \<longleftrightarrow>
     hasIntlSupport h requestedLocale \<and> map_of LOCALE_MESSAGES requestedLocale \<noteq> None"

definition getCanonicalLocales :: "'n host \<Rightarrow> string list" where
  "getCanonicalLocales h = CANONICAL_LOCALES h"

definition getAvailableLocales :: "LocaleMessages \<Rightarrow> string list" where
  "getAvailableLocales LOCALE_MESSAGES = sort (map fst LOCALE_MESSAGES)"

definition registerLocaleData :: "LocaleMessages \<Rightarrow> string \<Rightarrow> LhlMessages \<Rightarrow> LocaleMessages" where
  "registerLocaleData LOCALE_MESSAGES locale lhlMessages =
     AList.update locale lhlMessages LOCALE_MESSAGES"

subsection \<open>The exported operations\<close>

text \<open>
  What the module exports, as calls that run on the message store and leave a store
  behind. A call that reads a document comes with the heap that holds it. A document
  handed to \<^verbatim>\<open>replaceIcuMessages\<close> is the caller's own and no part of the store.
\<close>

datatype 'n call =
    Call_formatPathAsString "string list"
  | Call_collectAllCustomElementsFromICU "element list" "elementMap option"
  | Call_isIcuMessage "'n heap" "'n jsval"
  | Call_getFormatted "'n heap" "'n jsval" string
  | Call_getRendererFormattedStrings string
  | Call_replaceIcuMessages "'n heap" "'n jsval" string
  | Call_hasLocale string
  | Call_registerLocaleData string LhlMessages
  | Call_formatMessage string "'n jsrecord option" string
  | Call_getIcuMessageIdParts string
  | Call_getAvailableLocales
  | Call_getCanonicalLocales

datatype 'n outcome =
    Thrown error
  | Returned_string string
  | Returned_elements elementMap
  | Returned_bool bool
  | Returned_record "'n jsrecord"
  | Returned_paths "'n heap" "'n IcuMessagePaths"
  | Returned_parts string "string option"
  | Returned_locales "string list"
  | Returned_nothing

definition returning :: "('a \<Rightarrow> 'n outcome) \<Rightarrow> error + 'a \<Rightarrow> 'n outcome" where
  "returning f r = (case r of Inl e \<Rightarrow> Thrown e | Inr x \<Rightarrow> f x)"

fun exported :: "'n host \<Rightarrow> 'n call \<Rightarrow> LocaleMessages \<Rightarrow> 'n outcome \<times> LocaleMessages" where
  "exported h (Call_formatPathAsString pathInLHR) LM =
     (returning Returned_string (formatPathAsString pathInLHR), LM)"
| "exported h (Call_collectAllCustomElementsFromICU icuElements seenElementsById) LM =
     (Returned_elements
        (collectAllCustomElementsFromICU icuElements
           (case seenElementsById of None \<Rightarrow> [] | Some seen \<Rightarrow> seen)), LM)"
| "exported h (Call_isIcuMessage heap icuMessageOrNot) LM =
     (Returned_bool (isIcuMessage heap icuMessageOrNot), LM)"
| "exported h (Call_getFormatted heap icuMessageOrRawString locale) LM =
     (returning Returned_string (getFormatted h LM heap icuMessageOrRawString locale), LM)"
| "exported h (Call_getRendererFormattedStrings locale) LM =
     (returning Returned_record (getRendererFormattedStrings LM locale), LM)"
| "exported h (Call_replaceIcuMessages heap inputObject locale) LM =
     (returning (\<lambda>(heap', paths). Returned_paths heap' paths)
        (replaceIcuMessages h LM heap inputObject locale), LM)"
| "exported h (Call_hasLocale requestedLocale) LM =
     (Returned_bool (hasLocale h LM requestedLocale), LM)"
| "exported h (Call_registerLocaleData locale lhlMessages) LM =
     (Returned_nothing, registerLocaleData LM locale lhlMessages)"
| "exported h (Call_formatMessage msg vs locale) LM =
     (returning Returned_string (formatMessage h msg vs locale), LM)"
| "exported h (Call_getIcuMessageIdParts i18nMessageId) LM =
     (returning (\<lambda>(filename, key). Returned_parts filename key)
        (getIcuMessageIdParts i18nMessageId), LM)"
| "exported h Call_getAvailableLocales LM = (Returned_locales (getAvailableLocales LM), LM)"
| "exported h Call_getCanonicalLocales LM = (Returned_locales (getCanonicalLocales h), LM)"

section \<open>What the specification speaks of\<close>

text \<open>
  The argument elements of a message that \<^verbatim>\<open>collectAllCustomElementsFromICU\<close>
  looks at: those of the list, each followed by the ones nested in the options of its
  plural format, in the order of the text. What lies in the options of a select format
  is not among them.
\<close>

fun argumentElementsOf :: "element list \<Rightarrow> argumentElement list"
  and argumentElementsOfOptions :: "(string \<times> element list) list \<Rightarrow> argumentElement list"
where
  "argumentElementsOf [] = []"
| "argumentElementsOf (MessageTextElement t # els) = argumentElementsOf els"
| "argumentElementsOf (ArgumentElement i fmt # els) =
     (i, fmt) #
     (case fmt of
        Some (pluralFormat ordinal offset options) \<Rightarrow> argumentElementsOfOptions options
      | _ \<Rightarrow> []) @ argumentElementsOf els"
| "argumentElementsOfOptions [] = []"
| "argumentElementsOfOptions ((selector, els) # options) =
     argumentElementsOf els @ argumentElementsOfOptions options"

text \<open>The last of these placeholders with a given id.\<close>

definition lastPlaceholder :: "element list \<Rightarrow> string \<Rightarrow> argumentElement option" where
  "lastPlaceholder els i = find (\<lambda>a. fst a = i) (rev (argumentElementsOf els))"

text \<open>The errors that \<^verbatim>\<open>_preformatValues\<close> throws.\<close>

definition isValidationError :: "error \<Rightarrow> bool" where
  "isValidationError e =
     (case e of
        ValueNotProvided m i \<Rightarrow> True
      | NotANumber m i \<Rightarrow> True
      | NoPlaceholder v m \<Rightarrow> True
      | _ \<Rightarrow> False)"


text \<open>
  The property value at a path, when no property value on the way to it is itself a
  message: a message is replaced as a whole, and what lies inside it is not looked at.
\<close>

fun walkPath :: "'n heap \<Rightarrow> 'n jsval \<Rightarrow> string list \<Rightarrow> 'n jsval option" where
  "walkPath heap v [] = None"
| "walkPath heap v [k] = map_of (Object_entries heap v) k"
| "walkPath heap v (k # k' # ks) =
     (case map_of (Object_entries heap v) k of
        None \<Rightarrow> None
      | Some c \<Rightarrow> if isIcuMessage heap c then None else walkPath heap c (k' # ks))"

text \<open>The entry that a message leaves in the paths.\<close>

definition pathEntry :: "'n IcuMessage \<Rightarrow> string \<Rightarrow> 'n icuMessagePath" where
  "pathEntry icu path =
     (case IcuMessage.values icu of Some vs \<Rightarrow> ValuesAndPath vs path | None \<Rightarrow> PathString path)"

definition instancesOf :: "'n IcuMessagePaths \<Rightarrow> string \<Rightarrow> 'n icuMessagePath list" where
  "instancesOf paths i = (case map_of paths i of Some l \<Rightarrow> l | None \<Rightarrow> [])"

text \<open>
  A document that is a tree, as a parsed JSON document is: a value that is not held by
  reference, or the object (the array, when the flag is set) at an address, with the
  tree of each of its properties.
\<close>

datatype 'n doctree =
    Leaf "'n jsval"
  | Node addr bool "(string \<times> 'n doctree) list"

fun rootval :: "'n doctree \<Rightarrow> 'n jsval" where
  "rootval (Leaf v) = v"
| "rootval (Node a isArray kids) = JRef a"

definition entriesOf :: "(string \<times> 'n doctree) list \<Rightarrow> (string \<times> 'n jsval) list" where
  "entriesOf kids = map (\<lambda>(k, t). (k, rootval t)) kids"

definition objectOf :: "bool \<Rightarrow> (string \<times> 'n doctree) list \<Rightarrow> 'n jsobject" where
  "objectOf isArray kids =
     (if isArray then JArray (map snd (entriesOf kids)) else JObject (entriesOf kids))"

text \<open>The addresses of the objects and arrays of a tree.\<close>

fun addrs :: "'n doctree \<Rightarrow> addr list"
  and addrsAll :: "(string \<times> 'n doctree) list \<Rightarrow> addr list"
where
  "addrs (Leaf v) = []"
| "addrs (Node a isArray kids) = a # addrsAll kids"
| "addrsAll [] = []"
| "addrsAll ((k, t) # kids) = addrs t @ addrsAll kids"

text \<open>
  A heap holds a tree: every node of the tree is in the heap, at its address, as the
  object or array of the values of its properties. The names of the properties are
  distinct, and those of an array are its indices. When the addresses of the tree are
  distinct as well, no object of the document is reached along two paths.
\<close>

fun models :: "'n heap \<Rightarrow> 'n doctree \<Rightarrow> bool"
  and modelsAll :: "'n heap \<Rightarrow> (string \<times> 'n doctree) list \<Rightarrow> bool"
where
  "models heap (Leaf v) = (case v of JRef a \<Rightarrow> False | _ \<Rightarrow> True)"
| "models heap (Node a isArray kids) =
     (map_of heap a = Some (objectOf isArray kids) \<and>
      distinct (map fst kids) \<and>
      (isArray \<longrightarrow> map fst kids = map indexString [0..<length kids]) \<and>
      modelsAll heap kids)"
| "modelsAll heap [] = True"
| "modelsAll heap ((k, t) # kids) = (models heap t \<and> modelsAll heap kids)"

subsection \<open>A host for the examples\<close>

text \<open>
  The theorems below hold for every host. Their examples need one. The library of this
  one knows the syntax trees of three templates, takes every other message as plain
  text, and formats by putting the string values in place of their arguments. Its
  numbers are the rationals, with their exact arithmetic.
\<close>

definition exampleParse :: "string \<Rightarrow> element list" where
  "exampleParse msg =
     (if msg = ''Hello {name}'' then [MessageTextElement ''Hello '', ArgumentElement ''name'' None]
      else if msg = ''{toString}'' then [ArgumentElement ''toString'' None]
      else if msg = ''{timeInMs, number, seconds} s''
        then [ArgumentElement ''timeInMs'' (Some (numberFormat (Some ''seconds''))),
              MessageTextElement '' s'']
      else [MessageTextElement msg])"

definition exampleRender :: "element list \<Rightarrow> 'n jsrecord \<Rightarrow> string" where
  "exampleRender els vs =
     concat (map (\<lambda>el. case el of
                         MessageTextElement t \<Rightarrow> t
                       | ArgumentElement i fmt \<Rightarrow>
                           (case map_of vs i of Some (JStr s) \<Rightarrow> s | _ \<Rightarrow> ''?'')) els)"

definition exampleFormatter :: "element list \<Rightarrow> 'n formatter" where
  "exampleFormatter els = \<lparr>getAst = els, format = (\<lambda>vs. Inr (exampleRender els vs))\<rparr>"

definition exampleHost :: "rat host" where
  "exampleHost =
     \<lparr>MessageFormat = (\<lambda>msg locale fmts. Inr (exampleFormatter (exampleParse msg))),
      num = of_nat,
      num_divide = (\<lambda>x y. x / y),
      num_times = (\<lambda>x y. x * y),
      Math_round = (\<lambda>x. of_int \<lfloor>x + 1 / 2\<rfloor>),
      hasIntlSupport = (\<lambda>l. l = ''en-US''),
      CANONICAL_LOCALES = [''en-US''],
      callStackSize = 1000\<rparr>"

definition examplePlural :: "element list" where
  "examplePlural =
     [ArgumentElement ''itemCount''
        (Some (pluralFormat False 0
           [(''=1'', [MessageTextElement ''hello '', ArgumentElement ''icu'' None]),
            (''other'', [MessageTextElement ''hello '', ArgumentElement ''icu'' None])]))]"

definition exampleSelect :: "element list" where
  "exampleSelect =
     [ArgumentElement ''x''
        (Some (selectFormat
           [(''k'', [ArgumentElement ''y'' None]),
            (''other'', [MessageTextElement ''z''])]))]"

definition exampleMessages :: LocaleMessages where
  "exampleMessages = [(''en-US'', [(''core/lib/x.js | greeting'', \<lparr>message = ''Hello {name}''\<rparr>)])]"

text \<open>
  A document: \<^verbatim>\<open>{audits: [{title: m}]}\<close>, where \<^verbatim>\<open>m\<close> is the message
  \<^verbatim>\<open>{i18nId: 'core/lib/x.js | greeting', values: {name: 'World'}, formattedDefault: 'Hello World'}\<close>.
  The document is at the address 0, the message at the address 3.
\<close>

definition exampleHeap :: "rat heap" where
  "exampleHeap =
     [(0, JObject [(''audits'', JRef 1)]),
      (1, JArray [JRef 2]),
      (2, JObject [(''title'', JRef 3)]),
      (3, JObject [(''i18nId'', JStr ''core/lib/x.js | greeting''),
                   (''values'', JRef 4),
                   (''formattedDefault'', JStr ''Hello World'')]),
      (4, JObject [(''name'', JStr ''World'')])]"






subsection \<open>Auxiliary notions of the proofs\<close>

text \<open>Setting a list of argument elements into the map, one after the other.\<close>

definition setAll :: "argumentElement list \<Rightarrow> elementMap \<Rightarrow> elementMap" where
  "setAll as seen = fold (\<lambda>a m. AList.update (fst a) a m) as seen"

text \<open>The conversion of a numeric value by the style of its number format.\<close>

definition convertNumber :: "'n host \<Rightarrow> string option \<Rightarrow> string \<Rightarrow> 'n \<Rightarrow> 'n" where
  "convertNumber h sty i n =
     (if sty = Some ''milliseconds''
        then num_times h (Math_round h (num_divide h n (num h 10))) (num h 10)
      else if sty = Some ''seconds'' \<and> i = ''timeInMs''
        then num_divide h (Math_round h (num_divide h n (num h 100))) (num h 10)
      else if sty = Some ''bytes'' then num_divide h n (num h 1024)
      else n)"

text \<open>The trees of the properties of a tree, and the two ways of following a path in
  a tree: to what is found there, and to what the walk finds there.\<close>

fun kidsOf :: "'n doctree \<Rightarrow> (string \<times> 'n doctree) list" where
  "kidsOf (Leaf v) = []"
| "kidsOf (Node a isArray kids) = kids"


fun walkTree :: "'n heap \<Rightarrow> 'n doctree \<Rightarrow> string list \<Rightarrow> 'n doctree option" where
  "walkTree heap t [] = None"
| "walkTree heap t [k] = map_of (kidsOf t) k"
| "walkTree heap t (k # k' # ks) =
     (case map_of (kidsOf t) k of
        None \<Rightarrow> None
      | Some c \<Rightarrow> if isIcuMessage heap (rootval c) then None else walkTree heap c (k' # ks))"

text \<open>The tree of a document after the walk: the messages that the walk reaches have
  given way to their strings.\<close>

fun rewrite :: "'n host \<Rightarrow> LocaleMessages \<Rightarrow> string \<Rightarrow> 'n heap \<Rightarrow> 'n doctree \<Rightarrow> 'n doctree"
  and rewriteAll ::
    "'n host \<Rightarrow> LocaleMessages \<Rightarrow> string \<Rightarrow> 'n heap \<Rightarrow> (string \<times> 'n doctree) list
       \<Rightarrow> (string \<times> 'n doctree) list"
where
  "rewrite h LM loc heap (Leaf v) = Leaf v"
| "rewrite h LM loc heap (Node a isArray kids) = Node a isArray (rewriteAll h LM loc heap kids)"
| "rewriteAll h LM loc heap [] = []"
| "rewriteAll h LM loc heap ((k, t) # kids) =
     (k, if isIcuMessage heap (rootval t)
           then (case getFormatted h LM heap (rootval t) loc of
                   Inr s \<Rightarrow> Leaf (JStr s)
                 | Inl e \<Rightarrow> t)
         else rewrite h LM loc heap t) # rewriteAll h LM loc heap kids"

text \<open>The number of nested calls that the walk of a tree needs.\<close>

fun treeDepth :: "'n doctree \<Rightarrow> nat"
  and treeDepthAll :: "(string \<times> 'n doctree) list \<Rightarrow> nat"
where
  "treeDepth (Leaf v) = 1"
| "treeDepth (Node a isArray kids) = Suc (treeDepthAll kids)"
| "treeDepthAll [] = 0"
| "treeDepthAll ((k, t) # kids) = max (treeDepth t) (treeDepthAll kids)"


text \<open>The value of a decimal numeral, which is the index it stands for.\<close>

definition indexOfString :: "string \<Rightarrow> nat" where
  "indexOfString s = foldl (\<lambda>n c. 10 * n + (of_char c - 48)) 0 s"

text \<open>The one exported operation that writes the message store.\<close>

definition isRegisterLocaleData :: "'n call \<Rightarrow> bool" where
  "isRegisterLocaleData c = (case c of Call_registerLocaleData l m \<Rightarrow> True | _ \<Rightarrow> False)"

section \<open>Properties of message.js\<close>

subsection \<open>Collecting the argument elements\<close>

lemma setAll_Nil: "setAll [] seen = seen"
  by (simp add: setAll_def)

lemma setAll_Cons: "setAll (a # as) seen = setAll as (AList.update (fst a) a seen)"
  by (simp add: setAll_def)

lemma setAll_append: "setAll (as @ bs) seen = setAll bs (setAll as seen)"
  by (simp add: setAll_def)

lemma collect_setAll:
  "collectAllCustomElementsFromICU els seen = setAll (argumentElementsOf els) seen"
  "collectFromOptions opts seen = setAll (argumentElementsOfOptions opts) seen"
proof (induction els seen and opts seen
    rule: collectAllCustomElementsFromICU_collectFromOptions.induct)
  case (3 i fmt icuElements seenElementsById)
  then show ?case
    by (simp add: setAll_Cons setAll_append setAll_Nil
             split: option.splits elementFormat.splits)
qed (simp_all add: setAll_Nil setAll_append)

lemma setAll_distinct: "distinct (map fst seen) \<Longrightarrow> distinct (map fst (setAll as seen))"
  by (induction as arbitrary: seen) (simp_all add: setAll_Nil setAll_Cons distinct_update)

lemma setAll_keys: "fst ` set (setAll as seen) = fst ` set seen \<union> fst ` set as"
  by (induction as arbitrary: seen) (auto simp: setAll_Nil setAll_Cons dom_update)

lemma find_append_cases:
  "find P (xs @ ys) = (case find P xs of None \<Rightarrow> find P ys | Some x \<Rightarrow> Some x)"
  by (induction xs) simp_all

lemma setAll_map_of:
  "map_of (setAll as seen) k =
     (case find (\<lambda>a. fst a = k) (rev as) of Some a \<Rightarrow> Some a | None \<Rightarrow> map_of seen k)"
  by (induction as arbitrary: seen)
     (auto simp: setAll_Nil setAll_Cons update_conv' find_append_cases split: option.splits)

lemma collect_map_of:
  "map_of (collectAllCustomElementsFromICU els []) k = lastPlaceholder els k"
  by (simp add: collect_setAll setAll_map_of lastPlaceholder_def split: option.splits)

lemma collect_distinct: "distinct (map fst (collectAllCustomElementsFromICU els []))"
  by (simp add: collect_setAll setAll_distinct)

lemma collect_keys:
  "fst ` set (collectAllCustomElementsFromICU els []) = fst ` set (argumentElementsOf els)"
  by (simp add: collect_setAll setAll_keys)

lemma lastPlaceholder_Some:
  "lastPlaceholder els k = Some a \<Longrightarrow> fst a = k \<and> a \<in> set (argumentElementsOf els)"
proof -
  assume "lastPlaceholder els k = Some a"
  then have f: "find (\<lambda>a. fst a = k) (rev (argumentElementsOf els)) = Some a"
    by (simp add: lastPlaceholder_def)
  then obtain n where "n < length (rev (argumentElementsOf els))"
      "fst (rev (argumentElementsOf els) ! n) = k" "a = rev (argumentElementsOf els) ! n"
    unfolding find_Some_iff by blast
  then have "fst a = k" "a \<in> set (rev (argumentElementsOf els))"
    using nth_mem by blast+
  then show ?thesis by simp
qed

lemma collect_member:
  "(k, a) \<in> set (collectAllCustomElementsFromICU els []) \<Longrightarrow>
     lastPlaceholder els k = Some a"
  using collect_distinct [of els] collect_map_of [of els k] by simp

text \<open>
  C6. For every list of ICU message elements, \<^verbatim>\<open>collectAllCustomElementsFromICU\<close>
  returns a map that holds exactly the argument elements of the list together with
  those nested, recursively, in the options of plural formats, keyed by the element's id:
  the keys are distinct, they are the ids of these argument elements, and every key
  holds one of these elements, of that id.
\<close>

theorem collectAllCustomElementsFromICU_exact:
  "distinct (map fst (collectAllCustomElementsFromICU icuElements [])) \<and>
   fst ` set (collectAllCustomElementsFromICU icuElements []) =
     fst ` set (argumentElementsOf icuElements) \<and>
   (\<forall>(k, el) \<in> set (collectAllCustomElementsFromICU icuElements []).
      fst el = k \<and> el \<in> set (argumentElementsOf icuElements))"
proof (intro conjI ballI)
  show "distinct (map fst (collectAllCustomElementsFromICU icuElements []))"
    by (rule collect_distinct)
  show "fst ` set (collectAllCustomElementsFromICU icuElements []) =
          fst ` set (argumentElementsOf icuElements)"
    by (rule collect_keys)
next
  fix p
  assume p: "p \<in> set (collectAllCustomElementsFromICU icuElements [])"
  obtain k el where kel: "p = (k, el)" by (cases p)
  from p kel have "lastPlaceholder icuElements k = Some el"
    by (simp add: collect_member)
  from lastPlaceholder_Some [OF this] kel
  show "case p of (k, el) \<Rightarrow> fst el = k \<and> el \<in> set (argumentElementsOf icuElements)"
    by simp
qed

text \<open>An instance: a plural whose two options name the same argument.\<close>

theorem collectAllCustomElementsFromICU_exact_witness:
  "collectAllCustomElementsFromICU examplePlural [] =
     [(''itemCount'',
         (''itemCount'',
          Some (pluralFormat False 0
            [(''=1'', [MessageTextElement ''hello '', ArgumentElement ''icu'' None]),
             (''other'', [MessageTextElement ''hello '', ArgumentElement ''icu'' None])]))),
      (''icu'', (''icu'', None))] \<and>
   argumentElementsOf examplePlural =
     [(''itemCount'',
          Some (pluralFormat False 0
            [(''=1'', [MessageTextElement ''hello '', ArgumentElement ''icu'' None]),
             (''other'', [MessageTextElement ''hello '', ArgumentElement ''icu'' None])])),
      (''icu'', None), (''icu'', None)] \<and>
   distinct (map fst (collectAllCustomElementsFromICU examplePlural [])) \<and>
   fst ` set (collectAllCustomElementsFromICU examplePlural []) =
     fst ` set (argumentElementsOf examplePlural) \<and>
   (''icu'', None) \<in> set (argumentElementsOf examplePlural)"
  using collectAllCustomElementsFromICU_exact [of examplePlural]
  by (simp add: examplePlural_def)

subsection \<open>Preformatting the values\<close>

lemma map_of_js_set_other: "k \<noteq> i \<Longrightarrow> map_of (js_set fv i x) k = map_of fv k"
  by (simp add: js_set_def update_conv')

lemma map_of_js_set_same: "i \<noteq> ''__proto__'' \<Longrightarrow> map_of (js_set fv i x) i = Some x"
  by (simp add: js_set_def update_conv')

lemma keys_js_set:
  "fst ` set (js_set fv i x) =
     (if i = ''__proto__'' then fst ` set fv else insert i (fst ` set fv))"
  by (simp add: js_set_def dom_update)

lemma proto_inherited: "''__proto__'' \<in> set Object_prototype"
  by (simp add: Object_prototype_def)

lemma errorCode_not_inherited: "''errorCode'' \<notin> set Object_prototype"
  by (simp add: Object_prototype_def)

lemma js_in_js_set: "js_in k (js_set fv i x) \<longleftrightarrow> k = i \<or> js_in k fv"
  using proto_inherited by (auto simp: js_in_def keys_js_set)

lemma preformatElements_step:
  assumes "preformatElements h ((i, fmt) # as) vals msg fv0 = Inr fv"
  shows "\<exists>x. preformatElements h as vals msg (js_set fv0 i x) = Inr fv"
proof (cases "i \<noteq> [] \<and> \<not> js_in i vals")
  case True
  with assms show ?thesis by simp
next
  case False
  show ?thesis
  proof (cases fmt)
    case None
    with assms False show ?thesis by (auto simp: Let_def)
  next
    case (Some f)
    show ?thesis
    proof (cases f)
      case (numberFormat sty)
      with assms False Some show ?thesis
        by (cases "js_get vals i") (auto simp: Let_def)
    qed (use assms False Some in \<open>auto simp: Let_def\<close>)
  qed
qed

lemma preformatElements_other:
  "preformatElements h as vals msg fv0 = Inr fv \<Longrightarrow> k \<notin> fst ` set as \<Longrightarrow>
     map_of fv k = map_of fv0 k"
proof (induction as arbitrary: fv0)
  case Nil
  then show ?case by simp
next
  case (Cons a as)
  obtain i fmt where a: "a = (i, fmt)" by (cases a)
  from Cons.prems(2) a have ki: "k \<noteq> i" and kas: "k \<notin> fst ` set as" by auto
  from Cons.prems(1) a obtain x where
    "preformatElements h as vals msg (js_set fv0 i x) = Inr fv"
    using preformatElements_step by blast
  from Cons.IH [OF this kas] ki show ?case
    by (simp add: map_of_js_set_other)
qed

lemma preformatElements_js_in:
  "preformatElements h as vals msg fv0 = Inr fv \<Longrightarrow>
     js_in k fv \<longleftrightarrow> k \<in> fst ` set as \<or> js_in k fv0"
proof (induction as arbitrary: fv0)
  case Nil
  then show ?case by simp
next
  case (Cons a as)
  obtain i fmt where a: "a = (i, fmt)" by (cases a)
  from Cons.prems(1) a obtain x where
    "preformatElements h as vals msg (js_set fv0 i x) = Inr fv"
    using preformatElements_step by blast
  from Cons.IH [OF this] a show ?case
    by (auto simp: js_in_js_set)
qed

lemma preformatElements_number:
  "preformatElements h as vals msg fv0 = Inr fv \<Longrightarrow> distinct (map fst as) \<Longrightarrow>
   (i, Some (numberFormat sty)) \<in> set as \<Longrightarrow> js_get vals i = JNum n \<Longrightarrow>
   i \<noteq> ''__proto__'' \<Longrightarrow>
     map_of fv i = Some (JNum (convertNumber h sty i n))"
proof (induction as arbitrary: fv0)
  case Nil
  then show ?case by simp
next
  case (Cons a as)
  obtain j fmt where a: "a = (j, fmt)" by (cases a)
  show ?case
  proof (cases "(i, Some (numberFormat sty)) = a")
    case True
    with a have j: "j = i" and fmt: "fmt = Some (numberFormat sty)" by simp_all
    from Cons.prems(1,4) a j fmt have rest:
      "preformatElements h as vals msg (js_set fv0 i (JNum (convertNumber h sty i n))) = Inr fv"
      by (auto split: if_splits simp: Let_def convertNumber_def)
    from Cons.prems(2) a j have "i \<notin> fst ` set as" by auto
    from preformatElements_other [OF rest this] Cons.prems(5) show ?thesis
      by (simp add: map_of_js_set_same)
  next
    case False
    with Cons.prems(3) have mem: "(i, Some (numberFormat sty)) \<in> set as" by auto
    from Cons.prems(1) a obtain x where
      rest: "preformatElements h as vals msg (js_set fv0 j x) = Inr fv"
      using preformatElements_step by blast
    from Cons.prems(2) have "distinct (map fst as)" by simp
    from Cons.IH [OF rest this mem Cons.prems(4,5)] show ?thesis .
  qed
qed

lemma checkProvidedValues_keeps:
  "checkProvidedValues ks vals msg fv0 = Inr fv \<Longrightarrow> map_of fv0 k = Some x \<Longrightarrow>
     map_of fv k = Some x"
proof (induction ks arbitrary: fv0)
  case Nil
  then show ?case by simp
next
  case (Cons valueId ks)
  show ?case
  proof (cases "js_in valueId fv0")
    case True
    with Cons show ?thesis by simp
  next
    case False
    with Cons.prems(1) have e: "valueId = ''errorCode''" and
      rest: "checkProvidedValues ks vals msg
               (js_set fv0 ''errorCode'' (js_get vals ''errorCode'')) = Inr fv"
      by (auto split: if_splits)
    from False e Cons.prems(2) have "k \<noteq> ''errorCode''"
      by (auto simp: js_in_def dest: map_of_SomeD intro: rev_image_eqI)
    with Cons.prems(2) have
      "map_of (js_set fv0 ''errorCode'' (js_get vals ''errorCode'')) k = Some x"
      by (simp add: map_of_js_set_other)
    from Cons.IH [OF rest this] show ?thesis .
  qed
qed

lemma argumentElements_of_map:
  "map fst (map snd (collectAllCustomElementsFromICU els [])) =
     map fst (collectAllCustomElementsFromICU els [])"
proof -
  have "\<forall>p \<in> set (collectAllCustomElementsFromICU els []). fst (snd p) = fst p"
    using collect_member lastPlaceholder_Some by fastforce
  then show ?thesis by simp
qed

lemma argumentElements_distinct:
  "distinct (map fst (map snd (collectAllCustomElementsFromICU els [])))"
  by (simp only: argumentElements_of_map collect_distinct)

lemma argumentElements_member:
  "a \<in> set (map snd (collectAllCustomElementsFromICU els [])) \<longleftrightarrow>
     lastPlaceholder els (fst a) = Some a"
proof
  assume "a \<in> set (map snd (collectAllCustomElementsFromICU els []))"
  then obtain k where k: "(k, a) \<in> set (collectAllCustomElementsFromICU els [])" by auto
  from collect_member [OF k] lastPlaceholder_Some show "lastPlaceholder els (fst a) = Some a"
    by fastforce
next
  assume "lastPlaceholder els (fst a) = Some a"
  then have "map_of (collectAllCustomElementsFromICU els []) (fst a) = Some a"
    by (simp add: collect_map_of)
  from map_of_SomeD [OF this] show "a \<in> set (map snd (collectAllCustomElementsFromICU els []))"
    by force
qed

lemma argumentElements_keys:
  "fst ` set (map snd (collectAllCustomElementsFromICU els [])) =
     fst ` set (argumentElementsOf els)"
proof -
  have "set (map fst (map snd (collectAllCustomElementsFromICU els []))) =
        set (map fst (collectAllCustomElementsFromICU els []))"
    by (simp only: argumentElements_of_map)
  then show ?thesis
    by (simp add: collect_keys image_image)
qed

text \<open>
  C1, as amended. Whenever \<^verbatim>\<open>_preformatValues\<close> returns, for every id other than
  \<^verbatim>\<open>__proto__\<close> whose last placeholder has a number format, and whose provided
  value \<open>n\<close> is a number, the result holds under that id, computed in the arithmetic
  of the language: for the style \<^verbatim>\<open>milliseconds\<close> the value
  \<^verbatim>\<open>Math.round(n / 10) * 10\<close>; for the style \<^verbatim>\<open>seconds\<close> with the id
  \<^verbatim>\<open>timeInMs\<close> the value \<^verbatim>\<open>Math.round(n / 100) / 10\<close>; for the style
  \<^verbatim>\<open>bytes\<close> the value \<^verbatim>\<open>n / 1024\<close>; and \<open>n\<close> itself otherwise. The last
  placeholder of an id is the last one among the placeholders of the message and of the
  options of its plural formats, which is the one that the map of
  \<^verbatim>\<open>collectAllCustomElementsFromICU\<close> keeps.
\<close>

theorem preformatValues_number:
  assumes "preformatValues h fm vals msg = Inr formatted"
    and "lastPlaceholder (getAst fm) i = Some (i, Some (numberFormat sty))"
    and "js_get vals i = JNum n"
    and "i \<noteq> ''__proto__''"
  shows "(sty = Some ''milliseconds'' \<longrightarrow>
            map_of formatted i =
              Some (JNum (num_times h (Math_round h (num_divide h n (num h 10))) (num h 10)))) \<and>
         (sty = Some ''seconds'' \<and> i = ''timeInMs'' \<longrightarrow>
            map_of formatted i =
              Some (JNum (num_divide h (Math_round h (num_divide h n (num h 100))) (num h 10)))) \<and>
         (sty = Some ''bytes'' \<longrightarrow>
            map_of formatted i = Some (JNum (num_divide h n (num h 1024)))) \<and>
         (sty \<noteq> Some ''milliseconds'' \<and> sty \<noteq> Some ''bytes'' \<and>
          \<not> (sty = Some ''seconds'' \<and> i = ''timeInMs'') \<longrightarrow>
            map_of formatted i = Some (JNum n))"
proof -
  let ?as = "map snd (collectAllCustomElementsFromICU (getAst fm) [])"
  from assms(1) obtain fv where
    first: "preformatElements h ?as vals msg [] = Inr fv" and
    second: "checkProvidedValues (map fst vals) vals msg fv = Inr formatted"
    by (auto simp: preformatValues_def Let_def split: sum.splits)
  from assms(2) have "(i, Some (numberFormat sty)) \<in> set ?as"
    using argumentElements_member [of "(i, Some (numberFormat sty))" "getAst fm"] by simp
  from preformatElements_number [OF first argumentElements_distinct this assms(3,4)]
  have "map_of fv i = Some (JNum (convertNumber h sty i n))" .
  from checkProvidedValues_keeps [OF second this]
  have r: "map_of formatted i = Some (JNum (convertNumber h sty i n))" .
  have "sty = Some ''milliseconds'' \<longrightarrow>
          map_of formatted i =
            Some (JNum (num_times h (Math_round h (num_divide h n (num h 10))) (num h 10)))"
    using r by (simp add: convertNumber_def)
  moreover have "sty = Some ''seconds'' \<and> i = ''timeInMs'' \<longrightarrow>
          map_of formatted i =
            Some (JNum (num_divide h (Math_round h (num_divide h n (num h 100))) (num h 10)))"
    using r by (auto simp: convertNumber_def)
  moreover have "sty = Some ''bytes'' \<longrightarrow>
          map_of formatted i = Some (JNum (num_divide h n (num h 1024)))"
    using r by (auto simp: convertNumber_def)
  moreover have "sty \<noteq> Some ''milliseconds'' \<and> sty \<noteq> Some ''bytes'' \<and>
          \<not> (sty = Some ''seconds'' \<and> i = ''timeInMs'') \<longrightarrow>
            map_of formatted i = Some (JNum n)"
    using r by (auto simp: convertNumber_def)
  ultimately show ?thesis by blast
qed

text \<open>
  Without the amendment the statement fails where a message names one id twice with
  different styles: the map keeps the last placeholder, and the value is converted by
  the last style only. Here 2048 is not divided by 1024: it is rounded to tens.
\<close>

theorem preformatValues_number_counterexample:
  "(''x'', Some (numberFormat (Some ''bytes''))) \<in>
     set (argumentElementsOf
            [ArgumentElement ''x'' (Some (numberFormat (Some ''bytes''))),
             ArgumentElement ''x'' (Some (numberFormat (Some ''milliseconds'')))]) \<and>
   js_get [(''x'', JNum (2048 :: rat))] ''x'' = JNum 2048 \<and>
   preformatValues exampleHost
     (exampleFormatter
        [ArgumentElement ''x'' (Some (numberFormat (Some ''bytes''))),
         ArgumentElement ''x'' (Some (numberFormat (Some ''milliseconds'')))])
     [(''x'', JNum 2048)] ''{x, number, bytes} {x, number, milliseconds}'' =
       Inr [(''x'', JNum 2050)] \<and>
   JNum 2050 \<noteq> JNum (num_divide exampleHost 2048 (num exampleHost 1024))"
  by code_simp

text \<open>An instance: the message \<^verbatim>\<open>{timeInMs, number, seconds} s\<close> and 1234 ms.\<close>

theorem preformatValues_number_witness:
  "preformatValues exampleHost (exampleFormatter (exampleParse ''{timeInMs, number, seconds} s''))
     [(''timeInMs'', JNum 1234)] ''{timeInMs, number, seconds} s'' =
       Inr [(''timeInMs'', JNum (6 / 5))] \<and>
   lastPlaceholder
     (getAst (exampleFormatter (exampleParse ''{timeInMs, number, seconds} s'') :: rat formatter))
     ''timeInMs'' = Some (''timeInMs'', Some (numberFormat (Some ''seconds''))) \<and>
   js_get [(''timeInMs'', JNum (1234 :: rat))] ''timeInMs'' = JNum 1234 \<and>
   map_of [(''timeInMs'', JNum (6 / 5))] ''timeInMs'' =
     Some (JNum (num_divide exampleHost
                   (Math_round exampleHost (num_divide exampleHost 1234 (num exampleHost 100)))
                   (num exampleHost 10)))"
proof -
  let ?fm = "exampleFormatter (exampleParse ''{timeInMs, number, seconds} s'') :: rat formatter"
  have run: "preformatValues exampleHost ?fm [(''timeInMs'', JNum 1234)]
      ''{timeInMs, number, seconds} s'' = Inr [(''timeInMs'', JNum (6 / 5))]"
    by code_simp
  have last: "lastPlaceholder (getAst ?fm) ''timeInMs'' =
      Some (''timeInMs'', Some (numberFormat (Some ''seconds'')))"
    by code_simp
  have get: "js_get [(''timeInMs'', JNum (1234 :: rat))] ''timeInMs'' = JNum 1234"
    by (simp add: js_get_def)
  have "''timeInMs'' \<noteq> ''__proto__''" by simp
  from preformatValues_number [OF run last get this] run last get show ?thesis
    by simp
qed

subsection \<open>Validation\<close>

lemma preformatElements_error:
  "preformatElements h as vals msg fv0 = Inl e \<Longrightarrow> isValidationError e"
proof (induction as arbitrary: fv0)
  case Nil
  then show ?case by simp
next
  case (Cons a as)
  obtain i fmt where a: "a = (i, fmt)" by (cases a)
  show ?case
  proof (cases "i \<noteq> [] \<and> \<not> js_in i vals")
    case True
    with Cons.prems a show ?thesis by (auto simp: isValidationError_def)
  next
    case False
    show ?thesis
    proof (cases fmt)
      case None
      with Cons.prems a False Cons.IH show ?thesis by (auto simp: Let_def)
    next
      case (Some f)
      show ?thesis
      proof (cases f)
        case (numberFormat sty)
        with Cons.prems a False Some Cons.IH show ?thesis
          by (cases "js_get vals i") (auto simp: Let_def isValidationError_def)
      qed (use Cons.prems a False Some Cons.IH in \<open>auto simp: Let_def\<close>)
    qed
  qed
qed

lemma checkProvidedValues_error:
  "checkProvidedValues ks vals msg fv0 = Inl e \<Longrightarrow> isValidationError e"
  by (induction ks arbitrary: fv0) (auto simp: isValidationError_def split: if_splits)

lemma checkProvidedValues_unmatched:
  "k \<in> set ks \<Longrightarrow> \<not> js_in k fv0 \<Longrightarrow> k \<noteq> ''errorCode'' \<Longrightarrow>
     \<exists>e. checkProvidedValues ks vals msg fv0 = Inl e"
proof (induction ks arbitrary: fv0)
  case Nil
  then show ?case by simp
next
  case (Cons valueId ks)
  show ?case
  proof (cases "js_in valueId fv0")
    case True
    with Cons.prems have "k \<in> set ks" by auto
    from Cons.IH [OF this Cons.prems(2,3)] True show ?thesis by simp
  next
    case False
    show ?thesis
    proof (cases "valueId = ''errorCode''")
      case True
      with Cons.prems have mem: "k \<in> set ks" by auto
      from Cons.prems have "\<not> js_in k (js_set fv0 ''errorCode'' (js_get vals ''errorCode''))"
        by (simp add: js_in_js_set)
      from Cons.IH [OF mem this Cons.prems(3)] False True show ?thesis by simp
    next
      case notEC: False
      with False show ?thesis by simp
    qed
  qed
qed

lemma js_in_empty: "js_in k [] \<longleftrightarrow> k \<in> set Object_prototype"
  by (simp add: js_in_def)

lemma preformatValues_error:
  "preformatValues h fm vals msg = Inl e \<Longrightarrow> isValidationError e"
  by (auto simp: preformatValues_def Let_def split: sum.splits
        dest: preformatElements_error checkProvidedValues_error)

lemma preformatValues_unmatched:
  assumes "k \<in> fst ` set vals" and "k \<noteq> ''errorCode''"
    and "k \<notin> fst ` set (argumentElementsOf (getAst fm))"
    and "k \<notin> set Object_prototype"
  shows "\<exists>e. preformatValues h fm vals msg = Inl e \<and> isValidationError e"
proof -
  let ?as = "map snd (collectAllCustomElementsFromICU (getAst fm) [])"
  have "\<exists>e. preformatValues h fm vals msg = Inl e"
  proof (cases "preformatElements h ?as vals msg []")
    case (Inl e)
    then show ?thesis by (simp add: preformatValues_def)
  next
    case (Inr fv)
    from assms(3) have "k \<notin> fst ` set ?as"
      by (simp only: argumentElements_keys) simp
    moreover from preformatElements_js_in [OF Inr, of k]
    have "js_in k fv \<longleftrightarrow> k \<in> fst ` set ?as \<or> k \<in> set Object_prototype"
      by (simp add: js_in_empty)
    ultimately have "\<not> js_in k fv"
      using assms(4) by blast
    moreover from assms(1) have "k \<in> set (map fst vals)" by simp
    ultimately obtain e where "checkProvidedValues (map fst vals) vals msg fv = Inl e"
      using checkProvidedValues_unmatched assms(2) by blast
    with Inr show ?thesis by (simp add: preformatValues_def)
  qed
  then show ?thesis using preformatValues_error by blast
qed

text \<open>
  C4, as amended. For every message that the library parses and every values record, if
  the record has a key other than \<^verbatim>\<open>errorCode\<close> that matches no argument placeholder
  of the message (and is not a name that every object inherits), then
  \<^verbatim>\<open>_formatMessage\<close> throws a validation error.
\<close>

theorem formatMessage_unmatched_value:
  assumes "MessageFormat h msg (if locale = ''en-XA'' \<or> locale = ''en-XL'' then ''de-DE'' else locale)
             formats = Inr fm"
    and "k \<in> fst ` set vals" and "k \<noteq> ''errorCode''"
    and "k \<notin> fst ` set (argumentElementsOf (getAst fm))"
    and "k \<notin> set Object_prototype"
  shows "\<exists>e. formatMessage h msg (Some vals) locale = Inl e \<and> isValidationError e"
proof -
  from preformatValues_unmatched [OF assms(2-5)] obtain e where
    "preformatValues h fm vals msg = Inl e" "isValidationError e" by blast
  with assms(1) show ?thesis
    by (simp add: formatMessage_def)
qed

text \<open>
  Without the amendment the statement fails at the key \<^verbatim>\<open>errorCode\<close>, which is
  always allowed.
\<close>

theorem formatMessage_unmatched_value_counterexample:
  "''errorCode'' \<in> fst ` set [(''errorCode'', JStr ''NO_FCP'')] \<and>
   ''errorCode'' \<notin> fst ` set (argumentElementsOf (exampleParse ''Something went wrong'')) \<and>
   formatMessage exampleHost ''Something went wrong''
     (Some [(''errorCode'', JStr ''NO_FCP'')]) ''en-US'' = Inr ''Something went wrong''"
  by (simp add: formatMessage_def exampleHost_def exampleFormatter_def
        exampleParse_def exampleRender_def preformatValues_def js_in_def js_get_def js_set_def
        Object_prototype_def)

text \<open>An instance: the message \<^verbatim>\<open>Hello {name}\<close> with a value too many.\<close>

theorem formatMessage_unmatched_value_witness:
  "MessageFormat exampleHost ''Hello {name}'' ''en-US'' formats =
     Inr (exampleFormatter (exampleParse ''Hello {name}'')) \<and>
   ''extra'' \<in> fst ` set [(''name'', JStr ''World''), (''extra'', JNum 1)] \<and>
   ''extra'' \<notin> fst ` set (argumentElementsOf
                              (getAst (exampleFormatter (exampleParse ''Hello {name}'')))) \<and>
   ''extra'' \<notin> set Object_prototype \<and>
   (\<exists>e. formatMessage exampleHost ''Hello {name}''
           (Some [(''name'', JStr ''World''), (''extra'', JNum 1)]) ''en-US'' = Inl e \<and>
        isValidationError e)"
proof -
  have parse: "MessageFormat exampleHost ''Hello {name}''
      (if ''en-US'' = ''en-XA'' \<or> ''en-US'' = ''en-XL'' then ''de-DE'' else ''en-US'') formats =
      Inr (exampleFormatter (exampleParse ''Hello {name}''))"
    by (simp add: exampleHost_def)
  have key: "''extra'' \<in> fst ` set [(''name'', JStr ''World''), (''extra'', JNum 1)]"
    by simp
  have other: "''extra'' \<noteq> ''errorCode''" by simp
  have unmatched: "''extra'' \<notin> fst ` set (argumentElementsOf
      (getAst (exampleFormatter (exampleParse ''Hello {name}''))))"
    by (simp add: exampleFormatter_def exampleParse_def)
  have own: "''extra'' \<notin> set Object_prototype"
    by (simp add: Object_prototype_def)
  have "\<exists>e. formatMessage exampleHost ''Hello {name}''
           (Some [(''name'', JStr ''World''), (''extra'', JNum 1)]) ''en-US'' = Inl e \<and>
        isValidationError e"
    using parse key other unmatched own by (rule formatMessage_unmatched_value)
  with parse key unmatched own show ?thesis by simp
qed

text \<open>A placeholder without a value throws, unless its id is empty or names a member
  that every object inherits.\<close>

lemma preformatElements_missing:
  "(i, fmt) \<in> set as \<Longrightarrow> i \<noteq> [] \<Longrightarrow> \<not> js_in i vals \<Longrightarrow>
     \<exists>e. preformatElements h as vals msg fv0 = Inl e"
proof (induction as arbitrary: fv0)
  case Nil
  then show ?case by simp
next
  case (Cons a as)
  obtain j f where a: "a = (j, f)" by (cases a)
  show ?case
  proof (cases "preformatElements h (a # as) vals msg fv0")
    case (Inl e)
    then show ?thesis by blast
  next
    case (Inr fv)
    with a preformatElements_step obtain x where
      rest: "preformatElements h as vals msg (js_set fv0 j x) = Inr fv" by blast
    have "(i, fmt) \<noteq> a"
    proof
      assume "(i, fmt) = a"
      with a Cons.prems(2,3) Inr show False by simp
    qed
    with Cons.prems(1) have "(i, fmt) \<in> set as" by simp
    from Cons.IH [OF this Cons.prems(2,3), of "js_set fv0 j x"] rest show ?thesis by simp
  qed
qed

lemma formatMessage_missing_value:
  assumes "MessageFormat h msg (if loc = ''en-XA'' \<or> loc = ''en-XL'' then ''de-DE'' else loc) formats = Inr fm"
    and "i \<in> fst ` set (argumentElementsOf (getAst fm))" and "i \<noteq> []"
    and "i \<notin> fst ` set vals" and "i \<notin> set Object_prototype"
  shows "\<exists>e. formatMessage h msg (Some vals) loc = Inl e \<and> isValidationError e"
proof -
  let ?as = "map snd (collectAllCustomElementsFromICU (getAst fm) [])"
  from assms(2) have "i \<in> fst ` set ?as"
    by (simp only: argumentElements_keys)
  then obtain fmt where "(i, fmt) \<in> set ?as" by force
  moreover from assms(4,5) have "\<not> js_in i vals" by (simp add: js_in_def)
  ultimately obtain e where "preformatElements h ?as vals msg [] = Inl e"
    using preformatElements_missing assms(3) by blast
  then have "preformatValues h fm vals msg = Inl e"
    by (simp add: preformatValues_def)
  with preformatValues_error [OF this] assms(1) show ?thesis
    by (simp add: formatMessage_def)
qed

text \<open>
  C3 says that \<^verbatim>\<open>_formatMessage\<close> throws when the message has an argument
  placeholder whose id is no key of the values record. The code does not at the message
  \<^verbatim>\<open>{toString}\<close> and the empty values record, the default of the parameter: the
  check \<^verbatim>\<open>id in values\<close> finds the inherited member of that name, so nothing is
  thrown, \<^verbatim>\<open>_preformatValues\<close> returns the inherited member as the value, and the
  formatter is called with it.
\<close>

theorem formatMessage_inherited_placeholder:
  "''toString'' \<notin> fst ` set ([] :: rat jsrecord) \<and>
   (''toString'', None) \<in> set (argumentElementsOf (exampleParse ''{toString}'')) \<and>
   preformatValues exampleHost (exampleFormatter (exampleParse ''{toString}'')) [] ''{toString}'' =
     Inr [(''toString'', JBuiltin ''toString'')] \<and>
   formatMessage exampleHost ''{toString}'' None ''en-US'' = Inr ''?''"
  by (simp add: formatMessage_def exampleHost_def exampleFormatter_def
        exampleParse_def exampleRender_def preformatValues_def js_in_def js_get_def js_set_def
        Object_prototype_def)

lemma preformatElements_succeeds:
  "\<forall>(i, fmt) \<in> set as. js_in i vals \<and>
      (\<forall>sty. fmt = Some (numberFormat sty) \<longrightarrow> (\<exists>n. js_get vals i = JNum n)) \<Longrightarrow>
     \<exists>fv. preformatElements h as vals msg fv0 = Inr fv"
proof (induction as arbitrary: fv0)
  case Nil
  then show ?case by simp
next
  case (Cons a as)
  obtain i fmt where a: "a = (i, fmt)" by (cases a)
  from Cons.prems a have here: "js_in i vals"
    and num: "\<And>sty. fmt = Some (numberFormat sty) \<Longrightarrow> \<exists>n. js_get vals i = JNum n"
    and rest: "\<forall>(i, fmt) \<in> set as. js_in i vals \<and>
      (\<forall>sty. fmt = Some (numberFormat sty) \<longrightarrow> (\<exists>n. js_get vals i = JNum n))"
    by auto
  note IH = Cons.IH [OF rest]
  show ?case
  proof (cases fmt)
    case None
    with a here IH show ?thesis by (simp add: Let_def)
  next
    case (Some f)
    show ?thesis
    proof (cases f)
      case (numberFormat sty)
      with Some num obtain n where "js_get vals i = JNum n" by blast
      with a here Some numberFormat IH show ?thesis by (simp add: Let_def)
    qed (use a here Some IH in \<open>simp_all add: Let_def\<close>)
  qed
qed

lemma checkProvidedValues_succeeds:
  "\<forall>k \<in> set ks. k = ''errorCode'' \<or> js_in k fv0 \<Longrightarrow>
     \<exists>fv. checkProvidedValues ks vals msg fv0 = Inr fv"
proof (induction ks arbitrary: fv0)
  case Nil
  then show ?case by simp
next
  case (Cons valueId ks)
  show ?case
  proof (cases "js_in valueId fv0")
    case True
    moreover from Cons.prems have "\<forall>k \<in> set ks. k = ''errorCode'' \<or> js_in k fv0" by simp
    ultimately show ?thesis using Cons.IH by simp
  next
    case False
    with Cons.prems have e: "valueId = ''errorCode''" by simp
    from Cons.prems have
      "\<forall>k \<in> set ks. k = ''errorCode'' \<or>
          js_in k (js_set fv0 ''errorCode'' (js_get vals ''errorCode''))"
      by (simp add: js_in_js_set)
    from Cons.IH [OF this] False e show ?thesis by simp
  qed
qed

lemma checkProvidedValues_errorCode:
  "checkProvidedValues ks vals msg fv0 = Inr fv \<Longrightarrow> ''errorCode'' \<in> set ks \<Longrightarrow>
   \<not> js_in ''errorCode'' fv0 \<Longrightarrow>
     map_of fv ''errorCode'' = Some (js_get vals ''errorCode'')"
proof (induction ks arbitrary: fv0)
  case Nil
  then show ?case by simp
next
  case (Cons valueId ks)
  show ?case
  proof (cases "valueId = ''errorCode''")
    case True
    with Cons.prems have
      rest: "checkProvidedValues ks vals msg
               (js_set fv0 ''errorCode'' (js_get vals ''errorCode'')) = Inr fv"
      by simp
    have "map_of (js_set fv0 ''errorCode'' (js_get vals ''errorCode'')) ''errorCode'' =
          Some (js_get vals ''errorCode'')"
      by (simp add: map_of_js_set_same)
    from checkProvidedValues_keeps [OF rest this] show ?thesis .
  next
    case False
    with Cons.prems have "js_in valueId fv0"
      and "checkProvidedValues ks vals msg fv0 = Inr fv" and "''errorCode'' \<in> set ks"
      by (auto split: if_splits)
    with Cons.IH Cons.prems(3) show ?thesis by blast
  qed
qed

lemma js_in_own: "k \<in> fst ` set vals \<Longrightarrow> js_in k vals"
  by (simp add: js_in_def)

lemma js_get_own: "map_of vals k = Some v \<Longrightarrow> js_get vals k = v"
  by (simp add: js_get_def)

text \<open>
  C10, as amended. A provided value under the key \<^verbatim>\<open>errorCode\<close> never triggers the
  throw for a value without a placeholder: for every message with no
  \<^verbatim>\<open>errorCode\<close> placeholder and every values record that has the key
  \<^verbatim>\<open>errorCode\<close>, whose other keys all match placeholders, and that provides every
  placeholder with a value (a number where the placeholder has a number format),
  \<^verbatim>\<open>_preformatValues\<close> succeeds and its result holds the \<^verbatim>\<open>errorCode\<close> value
  unchanged. The placeholders are the argument elements that
  \<^verbatim>\<open>collectAllCustomElementsFromICU\<close> looks at: those of the message and of the
  options of its plural formats, and not those in the options of a select format.
\<close>

theorem preformatValues_errorCode:
  assumes "''errorCode'' \<notin> fst ` set (argumentElementsOf (getAst fm))"
    and "map_of vals ''errorCode'' = Some c"
    and "\<forall>k \<in> fst ` set vals. k \<noteq> ''errorCode'' \<longrightarrow>
           k \<in> fst ` set (argumentElementsOf (getAst fm))"
    and "\<forall>(i, fmt) \<in> set (argumentElementsOf (getAst fm)).
           i \<in> fst ` set vals \<and>
           (\<forall>sty. fmt = Some (numberFormat sty) \<longrightarrow> (\<exists>n. map_of vals i = Some (JNum n)))"
  shows "\<exists>formatted. preformatValues h fm vals msg = Inr formatted \<and>
           map_of formatted ''errorCode'' = Some c"
proof -
  let ?as = "map snd (collectAllCustomElementsFromICU (getAst fm) [])"
  have sub: "set ?as \<subseteq> set (argumentElementsOf (getAst fm))"
    using argumentElements_member lastPlaceholder_Some by blast
  have "\<forall>(i, fmt) \<in> set ?as. js_in i vals \<and>
      (\<forall>sty. fmt = Some (numberFormat sty) \<longrightarrow> (\<exists>n. js_get vals i = JNum n))"
  proof (intro ballI, clarify, intro conjI allI impI)
    fix i fmt
    assume "(i, fmt) \<in> set ?as"
    with sub have mem: "(i, fmt) \<in> set (argumentElementsOf (getAst fm))" by blast
    with assms(4) show "js_in i vals" by (auto intro: js_in_own)
    fix sty
    assume "fmt = Some (numberFormat sty)"
    with mem assms(4) obtain n where "map_of vals i = Some (JNum n)" by blast
    then show "\<exists>n. js_get vals i = JNum n" by (simp add: js_get_own)
  qed
  from preformatElements_succeeds [OF this] obtain fv where
    first: "preformatElements h ?as vals msg [] = Inr fv" by blast
  have keys: "fst ` set ?as = fst ` set (argumentElementsOf (getAst fm))"
    by (rule argumentElements_keys)
  have inside: "js_in k fv \<longleftrightarrow> k \<in> fst ` set ?as \<or> k \<in> set Object_prototype" for k
    using preformatElements_js_in [OF first, of k] by (simp add: js_in_empty)
  have "\<forall>k \<in> set (map fst vals). k = ''errorCode'' \<or> js_in k fv"
    using assms(3) inside keys by auto
  from checkProvidedValues_succeeds [OF this] obtain formatted where
    second: "checkProvidedValues (map fst vals) vals msg fv = Inr formatted" by blast
  from assms(1) keys inside have "\<not> js_in ''errorCode'' fv"
    using errorCode_not_inherited by simp
  moreover from map_of_SomeD [OF assms(2)] have "''errorCode'' \<in> set (map fst vals)"
    by force
  ultimately have "map_of formatted ''errorCode'' = Some (js_get vals ''errorCode'')"
    using checkProvidedValues_errorCode [OF second] by blast
  with assms(2) first second show ?thesis
    by (simp add: preformatValues_def js_get_own)
qed

text \<open>
  Without the amendment the statement fails where a placeholder has no value: the other
  keys of the record all match placeholders (there is none), and the missing value
  throws. It fails where the keys are the placeholders and the value of a number format
  is a string. And it fails where a key matches a placeholder that lies in an option of
  a select format, as \<^verbatim>\<open>y\<close> does in \<^verbatim>\<open>{x, select, k {{y}} other {z}}\<close>: the
  options of a select format are not searched, and the key counts as unmatched.
\<close>

theorem preformatValues_errorCode_counterexample:
  "''errorCode'' \<notin> fst ` set (argumentElementsOf (exampleParse ''Hello {name}'')) \<and>
   map_of [(''errorCode'', JStr ''NO_FCP'' :: rat jsval)] ''errorCode'' = Some (JStr ''NO_FCP'') \<and>
   fst ` set [(''errorCode'', JStr ''NO_FCP'' :: rat jsval)] = {''errorCode''} \<and>
   preformatValues exampleHost (exampleFormatter (exampleParse ''Hello {name}''))
     [(''errorCode'', JStr ''NO_FCP'')] ''Hello {name}'' =
       Inl (ValueNotProvided ''Hello {name}'' ''name'') \<and>
   argumentElementsOf (exampleParse ''{timeInMs, number, seconds} s'') =
     [(''timeInMs'', Some (numberFormat (Some ''seconds'')))] \<and>
   map fst [(''timeInMs'', JStr ''soon'' :: rat jsval), (''errorCode'', JStr ''NO_FCP'')] =
     [''timeInMs'', ''errorCode''] \<and>
   preformatValues exampleHost (exampleFormatter (exampleParse ''{timeInMs, number, seconds} s''))
     [(''timeInMs'', JStr ''soon''), (''errorCode'', JStr ''NO_FCP'')]
     ''{timeInMs, number, seconds} s'' =
       Inl (NotANumber ''{timeInMs, number, seconds} s'' ''timeInMs'') \<and>
   argumentElementsOf exampleSelect =
     [(''x'', Some (selectFormat [(''k'', [ArgumentElement ''y'' None]),
                                  (''other'', [MessageTextElement ''z''])]))] \<and>
   preformatValues exampleHost (exampleFormatter exampleSelect)
     [(''x'', JStr ''k''), (''y'', JStr ''Y''), (''errorCode'', JStr ''NO_FCP'')]
     ''{x, select, k {{y}} other {z}}'' =
       Inl (NoPlaceholder ''y'' ''{x, select, k {{y}} other {z}}'')"
  by code_simp

text \<open>An instance: the message \<^verbatim>\<open>Hello {name}\<close> with its value and an error code.\<close>

theorem preformatValues_errorCode_witness:
  "''errorCode'' \<notin> fst ` set (argumentElementsOf
      (getAst (exampleFormatter (exampleParse ''Hello {name}'')))) \<and>
   map_of [(''name'', JStr ''World''), (''errorCode'', JStr ''NO_FCP'')] ''errorCode'' =
     Some (JStr ''NO_FCP'') \<and>
   argumentElementsOf (getAst (exampleFormatter (exampleParse ''Hello {name}''))) =
     [(''name'', None)] \<and>
   (\<exists>formatted.
      preformatValues exampleHost (exampleFormatter (exampleParse ''Hello {name}''))
        [(''name'', JStr ''World''), (''errorCode'', JStr ''NO_FCP'')] ''Hello {name}'' =
          Inr formatted \<and>
      map_of formatted ''errorCode'' = Some (JStr ''NO_FCP''))"
proof -
  let ?fm = "exampleFormatter (exampleParse ''Hello {name}'')"
  let ?vals = "[(''name'', JStr ''World''), (''errorCode'', JStr ''NO_FCP'')]"
  have args: "argumentElementsOf (getAst ?fm) = [(''name'', None)]"
    by (simp add: exampleFormatter_def exampleParse_def)
  have h1: "''errorCode'' \<notin> fst ` set (argumentElementsOf (getAst ?fm))"
    by (simp add: args)
  have h2: "map_of ?vals ''errorCode'' = Some (JStr ''NO_FCP'')"
    by simp
  have h3: "\<forall>k \<in> fst ` set ?vals. k \<noteq> ''errorCode'' \<longrightarrow>
      k \<in> fst ` set (argumentElementsOf (getAst ?fm))"
    by (simp add: args)
  have h4: "\<forall>(i, fmt) \<in> set (argumentElementsOf (getAst ?fm)).
      i \<in> fst ` set ?vals \<and>
      (\<forall>sty. fmt = Some (numberFormat sty) \<longrightarrow> (\<exists>n. map_of ?vals i = Some (JNum n)))"
    by (simp add: args)
  from preformatValues_errorCode [OF h1 h2 h3 h4, where h = exampleHost and msg = "''Hello {name}''"]
    h1 h2 args
  show ?thesis by simp
qed

section \<open>Properties of the i18n module\<close>

subsection \<open>Message ids\<close>

text \<open>The pattern accepts every id that has a space in it, and no other.\<close>

lemma MESSAGE_I18N_ID_REGEX_space: "MESSAGE_I18N_ID_REGEX_test s \<longleftrightarrow> CHR '' '' \<in> set s"
  by (induction s) (auto simp: MESSAGE_I18N_ID_REGEX_at_def)

text \<open>An id needs no bar to be accepted: \<^verbatim>\<open>{i18nId: 'hello world', formattedDefault: 'HW'}\<close>
  is a message.\<close>

lemma isIcuMessage_spaced_id:
  "isIcuMessage
     [(9, JObject [(''i18nId'', JStr ''hello world''), (''formattedDefault'', JStr ''HW'')])]
     (JRef 9 :: rat jsval)"
  by code_simp

text \<open>The names of the elements of an array are distinct: each is the numeral of its
  index.\<close>

lemma indexOfString_append:
  "indexOfString (s @ [c]) = 10 * indexOfString s + (of_char c - 48)"
  by (simp add: indexOfString_def)

lemma indexOfString_indexString: "indexOfString (indexString n) = n"
proof (induction n rule: indexString.induct)
  case (1 n)
  show ?case
  proof (cases "n < 10")
    case True
    then have "indexString n = [char_of (48 + n)]" by (simp add: indexString.simps)
    moreover from True have "(48 + n) mod 256 = 48 + n" by simp
    ultimately show ?thesis by (simp add: indexOfString_def)
  next
    case False
    then have "indexString n = indexString (n div 10) @ [char_of (48 + n mod 10)]"
      by (subst indexString.simps) simp
    moreover have "n mod 10 < 10" by simp
    then have "(48 + n mod 10) mod 256 = 48 + n mod 10" by simp
    ultimately show ?thesis using "1.IH" [OF False] by (simp add: indexOfString_append)
  qed
qed

lemma indexString_distinct: "distinct (map indexString [0..<n])"
proof -
  have "inj indexString"
    by (rule inj_on_inverseI [of _ indexOfString]) (rule indexOfString_indexString)
  then show ?thesis by (simp add: distinct_map inj_on_def)
qed

subsection \<open>Localizing a message\<close>

lemma isIcuMessage_string: "\<not> isIcuMessage heap (JStr s)"
  by (simp add: isIcuMessage_def isObjectOfUnknownValues_def isObjectOrArrayOfUnknownValues_def)

lemma isIcuMessage_formattedDefault:
  "isIcuMessage heap m \<Longrightarrow>
     js_prop heap m ''formattedDefault'' = JStr (formattedDefault (asIcuMessage heap m))"
  by (auto simp: isIcuMessage_def asIcuMessage_def Let_def split: if_splits jsval.splits)

lemma isIcuMessage_i18nId:
  "isIcuMessage heap m \<Longrightarrow> js_prop heap m ''i18nId'' = JStr (i18nId (asIcuMessage heap m))"
  by (auto simp: isIcuMessage_def asIcuMessage_def Let_def split: if_splits jsval.splits)

text \<open>
  C5. For every value that is an \<^verbatim>\<open>LH.IcuMessage\<close> and whose id has a message in
  the table of the locale, \<^verbatim>\<open>getFormatted\<close> returns what \<^verbatim>\<open>_formatMessage\<close>
  makes of that message's template and the values of the value; and for every string it
  returns the string.
\<close>

theorem getFormatted_localized:
  "(isIcuMessage heap m \<and> map_of LM locale = Some localeMessages \<and>
    map_of localeMessages (i18nId (asIcuMessage heap m)) = Some localeMessage \<longrightarrow>
      getFormatted h LM heap m locale =
        formatMessage h (message localeMessage) (IcuMessage.values (asIcuMessage heap m))
          locale) \<and>
   getFormatted h LM heap (JStr s) locale = Inr s"
proof (intro conjI impI)
  assume found: "isIcuMessage heap m \<and> map_of LM locale = Some localeMessages \<and>
    map_of localeMessages (i18nId (asIcuMessage heap m)) = Some localeMessage"
  then have "getFormatted h LM heap m locale =
      localizeIcuMessage h LM (asIcuMessage heap m) locale"
    by (simp add: getFormatted_def)
  also from found have "\<dots> =
      formatMessage h (message localeMessage) (IcuMessage.values (asIcuMessage heap m)) locale"
    by (simp add: localizeIcuMessage_def)
  finally show "getFormatted h LM heap m locale =
      formatMessage h (message localeMessage) (IcuMessage.values (asIcuMessage heap m)) locale" .
next
  have "\<not> isIcuMessage heap (JStr s)" by (rule isIcuMessage_string)
  then show "getFormatted h LM heap (JStr s) locale = Inr s"
    by (simp add: getFormatted_def)
qed

lemma exampleIcuMessage_is: "isIcuMessage exampleHeap (JRef 3)"
  by code_simp

lemma exampleIcuMessage_as:
  "asIcuMessage exampleHeap (JRef 3) =
     \<lparr>i18nId = ''core/lib/x.js | greeting'', values = Some [(''name'', JStr ''World'')],
      formattedDefault = ''Hello World''\<rparr>"
  by code_simp

lemma formatMessage_example:
  "formatMessage exampleHost ''Hello {name}'' (Some [(''name'', JStr ''World'')]) ''en-US'' =
     Inr ''Hello World''"
  by code_simp

text \<open>An instance: a greeting in the locale \<^verbatim>\<open>en-US\<close>, and a plain string.\<close>

theorem getFormatted_localized_witness:
  "isIcuMessage exampleHeap (JRef 3) \<and>
   map_of exampleMessages ''en-US'' =
     Some [(''core/lib/x.js | greeting'', \<lparr>message = ''Hello {name}''\<rparr>)] \<and>
   map_of [(''core/lib/x.js | greeting'', \<lparr>message = ''Hello {name}''\<rparr>)]
     (i18nId (asIcuMessage exampleHeap (JRef 3))) = Some \<lparr>message = ''Hello {name}''\<rparr> \<and>
   getFormatted exampleHost exampleMessages exampleHeap (JRef 3) ''en-US'' =
     Inr ''Hello World'' \<and>
   getFormatted exampleHost exampleMessages exampleHeap (JStr ''plain'') ''en-US'' =
     Inr ''plain''"
  using getFormatted_localized
          [of exampleHeap "JRef 3" exampleMessages "''en-US''"
              "[(''core/lib/x.js | greeting'', \<lparr>message = ''Hello {name}''\<rparr>)]"
              "\<lparr>message = ''Hello {name}''\<rparr>" exampleHost "''plain''"]
  by (simp add: exampleIcuMessage_is exampleIcuMessage_as exampleMessages_def
        formatMessage_example)

text \<open>
  C9. For every value that is an \<^verbatim>\<open>LH.IcuMessage\<close> and every locale that has a
  table of messages, if the table has no entry for the id of the value, then
  \<^verbatim>\<open>getFormatted\<close> returns the value's \<^verbatim>\<open>formattedDefault\<close> string, and
  does not throw.
\<close>

theorem getFormatted_default:
  assumes "isIcuMessage heap m" and "map_of LM locale = Some localeMessages"
    and "map_of localeMessages (i18nId (asIcuMessage heap m)) = None"
  shows "getFormatted h LM heap m locale = Inr (formattedDefault (asIcuMessage heap m)) \<and>
         js_prop heap m ''formattedDefault'' = JStr (formattedDefault (asIcuMessage heap m))"
  using assms
  by (simp add: getFormatted_def localizeIcuMessage_def isIcuMessage_formattedDefault)

text \<open>An instance: the greeting and a locale whose table is empty.\<close>

theorem getFormatted_default_witness:
  "isIcuMessage exampleHeap (JRef 3) \<and>
   map_of [(''en-US'', [])] ''en-US'' = Some ([] :: LhlMessages) \<and>
   map_of ([] :: LhlMessages) (i18nId (asIcuMessage exampleHeap (JRef 3))) = None \<and>
   getFormatted exampleHost [(''en-US'', [])] exampleHeap (JRef 3) ''en-US'' =
     Inr ''Hello World'' \<and>
   js_prop exampleHeap (JRef 3) ''formattedDefault'' = JStr ''Hello World''"
proof -
  have h2: "map_of [(''en-US'', [])] ''en-US'' = Some ([] :: LhlMessages)" by simp
  have h3: "map_of ([] :: LhlMessages) (i18nId (asIcuMessage exampleHeap (JRef 3))) = None"
    by simp
  from getFormatted_default [OF exampleIcuMessage_is h2 h3, of exampleHost]
    exampleIcuMessage_is h2 h3
  show ?thesis by (simp add: exampleIcuMessage_as)
qed

subsection \<open>Trees in a heap\<close>

lemma entriesOf_Nil: "entriesOf [] = []"
  by (simp add: entriesOf_def)

lemma entriesOf_Cons: "entriesOf ((k, t) # kids) = (k, rootval t) # entriesOf kids"
  by (simp add: entriesOf_def)

lemma entriesOf_append: "entriesOf (xs @ ys) = entriesOf xs @ entriesOf ys"
  by (simp add: entriesOf_def)

lemma entriesOf_keys: "map fst (entriesOf kids) = map fst kids"
  by (induction kids) (auto simp: entriesOf_def)

lemma map_of_entriesOf: "map_of (entriesOf kids) k = map_option rootval (map_of kids k)"
  by (induction kids) (auto simp: entriesOf_def)

lemma modelsAll_iff: "modelsAll heap kids \<longleftrightarrow> (\<forall>(k, t) \<in> set kids. models heap t)"
  by (induction kids) auto

lemma modelsAll_append:
  "modelsAll heap (xs @ ys) \<longleftrightarrow> modelsAll heap xs \<and> modelsAll heap ys"
  by (auto simp: modelsAll_iff)

lemma modelsAll_map_of: "modelsAll heap kids \<Longrightarrow> map_of kids k = Some c \<Longrightarrow> models heap c"
  by (auto simp: modelsAll_iff dest: map_of_SomeD)

lemma Object_entries_Node:
  assumes "models heap (Node a isArray kids)"
  shows "Object_entries heap (JRef a) = entriesOf kids"
proof (cases isArray)
  case False
  with assms show ?thesis by (simp add: Object_entries_def objectOf_def)
next
  case True
  with assms have keys: "map fst (entriesOf kids) = map indexString [0..<length kids]"
    by (simp add: entriesOf_keys)
  have "zip (map fst (entriesOf kids)) (map snd (entriesOf kids)) = entriesOf kids"
    by (rule zip_map_fst_snd)
  with keys have "zip (map indexString [0..<length kids]) (map snd (entriesOf kids)) =
      entriesOf kids"
    by simp
  moreover have "length (entriesOf kids) = length kids"
    by (simp add: entriesOf_def)
  ultimately show ?thesis
    using assms True by (simp add: Object_entries_def objectOf_def)
qed

lemma Object_entries_Leaf: "models heap (Leaf v) \<Longrightarrow> Object_entries heap v = []"
  by (cases v) (simp_all add: Object_entries_def)

lemma isIcuMessage_Leaf: "models heap (Leaf v) \<Longrightarrow> \<not> isIcuMessage heap v"
  by (cases v) (simp_all add: isIcuMessage_def js_prop_def Let_def)

lemma models_cong:
  "models h1 t \<Longrightarrow> (\<forall>a \<in> set (addrs t). map_of h2 a = map_of h1 a) \<Longrightarrow> models h2 t"
  "modelsAll h1 kids \<Longrightarrow> (\<forall>a \<in> set (addrsAll kids). map_of h2 a = map_of h1 a) \<Longrightarrow>
     modelsAll h2 kids"
  by (induction t and kids rule: addrs_addrsAll.induct) auto

lemma heap_of_tree:
  assumes "models h1 c" and "models h2 c"
  shows "isObjectOfUnknownValues h1 (rootval c) = isObjectOfUnknownValues h2 (rootval c)"
    and "Object_entries h1 (rootval c) = Object_entries h2 (rootval c)"
  using assms
  by (cases c; cases "rootval c";
      simp add: isObjectOfUnknownValues_def Object_entries_def)+

lemma heap_of_property:
  assumes "modelsAll h1 kids" and "modelsAll h2 kids"
  shows "isObjectOfUnknownValues h1 (js_get (entriesOf kids) key) =
           isObjectOfUnknownValues h2 (js_get (entriesOf kids) key)"
    and "Object_entries h1 (js_get (entriesOf kids) key) =
           Object_entries h2 (js_get (entriesOf kids) key)"
proof -
  show "isObjectOfUnknownValues h1 (js_get (entriesOf kids) key) =
           isObjectOfUnknownValues h2 (js_get (entriesOf kids) key)"
  proof (cases "map_of kids key")
    case None
    then show ?thesis
      by (simp add: js_get_def map_of_entriesOf isObjectOfUnknownValues_def)
  next
    case (Some c)
    with assms have "models h1 c" "models h2 c" by (auto dest: modelsAll_map_of)
    from heap_of_tree(1) [OF this] Some show ?thesis
      by (simp add: js_get_def map_of_entriesOf)
  qed
  show "Object_entries h1 (js_get (entriesOf kids) key) =
           Object_entries h2 (js_get (entriesOf kids) key)"
  proof (cases "map_of kids key")
    case None
    then show ?thesis
      by (simp add: js_get_def map_of_entriesOf Object_entries_def)
  next
    case (Some c)
    with assms have "models h1 c" "models h2 c" by (auto dest: modelsAll_map_of)
    from heap_of_tree(2) [OF this] Some show ?thesis
      by (simp add: js_get_def map_of_entriesOf)
  qed
qed

lemma js_prop_Node:
  "models heap (Node a isArray kids) \<Longrightarrow>
     js_prop heap (JRef a) key = (if isArray then JUndefined else js_get (entriesOf kids) key)"
  by (simp add: js_prop_def objectOf_def)

lemma isObject_Node:
  "models heap (Node a isArray kids) \<Longrightarrow> isObjectOfUnknownValues heap (JRef a) = (\<not> isArray)"
  by (simp add: isObjectOfUnknownValues_def isObjectOrArrayOfUnknownValues_def objectOf_def)

lemma isIcuMessage_of_tree:
  assumes "models h1 t" and "models h2 t"
  shows "isIcuMessage h1 (rootval t) = isIcuMessage h2 (rootval t)"
proof (cases t)
  case (Leaf v)
  with assms show ?thesis by (simp add: isIcuMessage_Leaf)
next
  case (Node a isArray kids)
  with assms have m1: "models h1 (Node a isArray kids)" and m2: "models h2 (Node a isArray kids)"
    by simp_all
  then have k1: "modelsAll h1 kids" and k2: "modelsAll h2 kids" by simp_all
  note same = heap_of_property [OF k1 k2, of "''values''"]
  show ?thesis
    unfolding Node rootval.simps isIcuMessage_def Object_values_def
      js_prop_Node [OF m1] js_prop_Node [OF m2] isObject_Node [OF m1] isObject_Node [OF m2]
      Let_def
    by (simp add: same [symmetric] cong: jsval.case_cong)
qed

lemma asIcuMessage_of_tree:
  assumes "models h1 t" and "models h2 t"
  shows "asIcuMessage h1 (rootval t) = asIcuMessage h2 (rootval t)"
proof (cases t)
  case (Leaf v)
  with assms show ?thesis by (cases v) (simp_all add: asIcuMessage_def js_prop_def)
next
  case (Node a isArray kids)
  with assms have m1: "models h1 (Node a isArray kids)" and m2: "models h2 (Node a isArray kids)"
    by simp_all
  then have k1: "modelsAll h1 kids" and k2: "modelsAll h2 kids" by simp_all
  have "Object_entries h1 (JRef b) = Object_entries h2 (JRef b)"
    if "js_get (entriesOf kids) ''values'' = JRef b" for b
    using heap_of_property(2) [OF k1 k2, of "''values''"] that by simp
  then show ?thesis
    unfolding Node rootval.simps asIcuMessage_def js_prop_Node [OF m1] js_prop_Node [OF m2]
    by (auto split: jsval.splits)
qed

lemma getFormatted_of_tree:
  assumes "models h1 t" and "models h2 t"
  shows "getFormatted h LM h1 (rootval t) loc = getFormatted h LM h2 (rootval t) loc"
  using isIcuMessage_of_tree [OF assms] asIcuMessage_of_tree [OF assms]
  by (simp add: getFormatted_def)


subsection \<open>Writing into a tree\<close>

lemma update_middle:
  "k \<notin> fst ` set xs \<Longrightarrow> AList.update k v (xs @ (k, x) # ys) = xs @ (k, v) # ys"
  by (induction xs) auto

lemma map_other_keys:
  "k \<notin> fst ` set xs \<Longrightarrow> map (\<lambda>(k', x). if k' = k then v else x) xs = map snd xs"
  by (induction xs) auto

lemma writeProperty_Node:
  assumes "map_of heap a = Some (objectOf isArray (before @ (k, c) # rest))"
    and "distinct (map fst (before @ (k, c) # rest))"
    and "isArray \<longrightarrow> map fst (before @ (k, c) # rest) =
           map indexString [0..<length (before @ (k, c) # rest)]"
  shows "map_of (writeProperty heap (JRef a) k v) =
           (map_of heap)(a \<mapsto> objectOf isArray (before @ (k, Leaf v) # rest))"
proof -
  let ?kids = "before @ (k, c) # rest"
  from assms(2) have nb: "k \<notin> fst ` set (entriesOf before)"
    and nr: "k \<notin> fst ` set (entriesOf rest)"
    using entriesOf_keys [of before] entriesOf_keys [of rest]
    by (auto simp flip: set_map)
  have split: "entriesOf ?kids = entriesOf before @ (k, rootval c) # entriesOf rest"
    by (simp add: entriesOf_append entriesOf_Cons)
  have split': "entriesOf (before @ (k, Leaf v) # rest) =
      entriesOf before @ (k, v) # entriesOf rest"
    by (simp add: entriesOf_append entriesOf_Cons)
  show ?thesis
  proof (cases isArray)
    case False
    with assms(1) have "writeProperty heap (JRef a) k v =
        AList.update a (JObject (AList.update k v (entriesOf ?kids))) heap"
      by (simp add: writeProperty_def objectOf_def)
    also have "AList.update k v (entriesOf ?kids) = entriesOf (before @ (k, Leaf v) # rest)"
      unfolding split split' using nb by (rule update_middle)
    finally show ?thesis
      using False by (simp add: update_conv' objectOf_def)
  next
    case True
    let ?xs = "map snd (entriesOf ?kids)"
    from True assms(3) have "map fst (entriesOf ?kids) = map indexString [0..<length ?kids]"
      by (simp only: entriesOf_keys)
    moreover have "length ?xs = length ?kids" by (simp add: entriesOf_def)
    moreover have "zip (map fst (entriesOf ?kids)) ?xs = entriesOf ?kids"
      by (rule zip_map_fst_snd)
    ultimately have zipped: "zip (map indexString [0..<length ?xs]) ?xs = entriesOf ?kids"
      by simp
    have "map (\<lambda>(k', x). if k' = k then v else x) (entriesOf ?kids) =
        map snd (entriesOf (before @ (k, Leaf v) # rest))"
      unfolding split split' using nb nr by (simp add: map_other_keys)
    with True assms(1) zipped have "writeProperty heap (JRef a) k v =
        AList.update a (JArray (map snd (entriesOf (before @ (k, Leaf v) # rest)))) heap"
      by (simp add: writeProperty_def objectOf_def)
    then show ?thesis
      using True by (simp add: update_conv' objectOf_def)
  qed
qed

lemma writeProperty_other:
  "b \<noteq> a \<Longrightarrow> map_of (writeProperty heap (JRef a) k v) b = map_of heap b"
  by (simp add: writeProperty_def update_conv' split: option.splits jsobject.splits)

subsection \<open>The walk\<close>


lemma replaceInEntries_message:
  assumes "isIcuMessage heap v"
    and "replaceInEntries rec h LM loc heap sub ((k, v) # es) paths pre = Inr (heap', paths')"
  shows "\<exists>s ps. getFormatted h LM heap v loc = Inr s \<and>
           formatPathAsString (pre @ [k]) = Inr ps \<and>
           replaceInEntries rec h LM loc (writeProperty heap sub k (JStr s)) sub es
             (AList.update (i18nId (asIcuMessage heap v))
                (instancesOf paths (i18nId (asIcuMessage heap v)) @
                   [pathEntry (asIcuMessage heap v) ps])
                paths) pre = Inr (heap', paths')"
  using assms
  by (auto simp: Let_def instancesOf_def pathEntry_def split: sum.splits)

lemma replaceInEntries_other:
  assumes "\<not> isIcuMessage heap v"
    and "replaceInEntries rec h LM loc heap sub ((k, v) # es) paths pre = Inr (heap', paths')"
  shows "\<exists>heap1 mid. rec heap v paths (pre @ [k]) = Inr (heap1, mid) \<and>
           replaceInEntries rec h LM loc heap1 sub es mid pre = Inr (heap', paths')"
  using assms
  by (auto simp: Let_def split: sum.splits prod.splits)



lemma replaceInObject_Node:
  assumes "models heap (Node a isArray kids)"
    and "replaceInObject d h LM loc heap (JRef a) paths pre = Inr (heap', paths')"
  shows "\<exists>d'. d = Suc d' \<and>
           replaceInEntries (replaceInObject d' h LM loc) h LM loc heap (JRef a) (entriesOf kids)
             paths pre = Inr (heap', paths')"
proof (cases d)
  case 0
  with assms(2) show ?thesis by simp
next
  case (Suc d')
  with assms(2) Object_entries_Node [OF assms(1)] show ?thesis
    by (simp add: isObjectOrArrayOfUnknownValues_def)
qed

lemma replaceInObject_Leaf:
  assumes "models heap (Leaf v)"
    and "replaceInObject d h LM loc heap v paths pre = Inr (heap', paths')"
  shows "heap' = heap \<and> paths' = paths"
proof (cases d)
  case 0
  with assms(2) show ?thesis by simp
next
  case (Suc d')
  with assms(2) Object_entries_Leaf [OF assms(1)] show ?thesis
    by (simp split: if_splits)
qed


lemma rootval_rewrite: "rootval (rewrite h LM loc H t) = rootval t"
  by (cases t) simp_all

lemma rewriteAll_keys: "map fst (rewriteAll h LM loc H kids) = map fst kids"
  by (induction kids) auto

lemma rewriteAll_length: "length (rewriteAll h LM loc H kids) = length kids"
  by (induction kids) auto

lemma addrs_rewrite:
  "set (addrs (rewrite h LM loc H t)) \<subseteq> set (addrs t)"
  "set (addrsAll (rewriteAll h LM loc H kids)) \<subseteq> set (addrsAll kids)"
  by (induction t and kids rule: addrs_addrsAll.induct) (auto split: sum.splits)

lemma objectOf_rootval:
  "rootval c' = rootval c \<Longrightarrow>
     objectOf isArray (before @ (k, c') # rest) = objectOf isArray (before @ (k, c) # rest)"
  by (simp add: objectOf_def entriesOf_def)

lemma walk_models:
  "models H t \<Longrightarrow> models heap t \<Longrightarrow> distinct (addrs t) \<Longrightarrow>
   replaceInObject d h LM loc heap (rootval t) paths pre = Inr (heap', paths') \<Longrightarrow>
     (\<forall>b. b \<notin> set (addrs t) \<longrightarrow> map_of heap' b = map_of heap b) \<and>
     models heap' (rewrite h LM loc H t)"
  "modelsAll H kids \<Longrightarrow> modelsAll heap kids \<Longrightarrow> distinct (addrsAll kids) \<Longrightarrow>
   a \<notin> set (addrsAll kids) \<Longrightarrow> distinct (map fst (before @ kids)) \<Longrightarrow>
   (isArray \<longrightarrow> map fst (before @ kids) = map indexString [0..<length (before @ kids)]) \<Longrightarrow>
   map_of heap a = Some (objectOf isArray (before @ kids)) \<Longrightarrow>
   replaceInEntries (replaceInObject d h LM loc) h LM loc heap (JRef a) (entriesOf kids)
     paths pre = Inr (heap', paths') \<Longrightarrow>
     (\<forall>b. b \<notin> set (addrsAll kids) \<longrightarrow> b \<noteq> a \<longrightarrow> map_of heap' b = map_of heap b) \<and>
     map_of heap' a = Some (objectOf isArray (before @ rewriteAll h LM loc H kids)) \<and>
     modelsAll heap' (rewriteAll h LM loc H kids)"
proof (induction t and kids
    arbitrary: d heap paths pre heap' paths' and d heap paths pre heap' paths' a isArray before
    rule: addrs_addrsAll.induct)
  case (1 v)
  from replaceInObject_Leaf [OF "1.prems"(2)] "1.prems"(4) have "heap' = heap"
    by simp
  with "1.prems"(2) show ?case by simp
next
  case (2 a isArray kids)
  from "2.prems"(4) have "replaceInObject d h LM loc heap (JRef a) paths pre = Inr (heap', paths')"
    by simp
  from replaceInObject_Node [OF "2.prems"(2) this] obtain d' where
    run: "replaceInEntries (replaceInObject d' h LM loc) h LM loc heap (JRef a) (entriesOf kids)
            paths pre = Inr (heap', paths')"
    by blast
  from "2.prems"(1) have mH: "modelsAll H kids" by simp
  from "2.prems"(2) have mh: "modelsAll heap kids"
    and keys: "distinct (map fst ([] @ kids))"
    and idx: "isArray \<longrightarrow> map fst ([] @ kids) = map indexString [0..<length ([] @ kids)]"
    and here: "map_of heap a = Some (objectOf isArray ([] @ kids))"
    by simp_all
  from "2.prems"(3) have dist: "distinct (addrsAll kids)" and notin: "a \<notin> set (addrsAll kids)"
    by simp_all
  from "2.IH" [OF mH mh dist notin keys idx here run]
  have frame: "\<forall>b. b \<notin> set (addrsAll kids) \<longrightarrow> b \<noteq> a \<longrightarrow> map_of heap' b = map_of heap b"
    and there: "map_of heap' a = Some (objectOf isArray (rewriteAll h LM loc H kids))"
    and kids': "modelsAll heap' (rewriteAll h LM loc H kids)"
    by simp_all
  from keys idx there kids' have "models heap' (rewrite h LM loc H (Node a isArray kids))"
    by (simp add: rewriteAll_keys rewriteAll_length)
  with frame show ?case by simp
next
  case 3
  then show ?case by (simp add: entriesOf_Nil)
next
  case (4 k t kids)
  let ?v = "rootval t"
  from "4.prems"(1) have mHt: "models H t" and mHk: "modelsAll H kids" by simp_all
  from "4.prems"(2) have mht: "models heap t" and mhk: "modelsAll heap kids" by simp_all
  from "4.prems"(3) have dt: "distinct (addrs t)" and dk: "distinct (addrsAll kids)"
    and disj: "set (addrs t) \<inter> set (addrsAll kids) = {}"
    by simp_all
  from "4.prems"(4) have at: "a \<notin> set (addrs t)" and ak: "a \<notin> set (addrsAll kids)"
    by simp_all
  note keys = "4.prems"(5) and idx = "4.prems"(6) and here = "4.prems"(7)
  from "4.prems"(8) have run:
    "replaceInEntries (replaceInObject d h LM loc) h LM loc heap (JRef a)
       ((k, ?v) # entriesOf kids) paths pre = Inr (heap', paths')"
    by (simp add: entriesOf_Cons)
  have same: "isIcuMessage heap ?v = isIcuMessage H ?v"
    by (rule isIcuMessage_of_tree [OF mht mHt])
  have fmt: "getFormatted h LM heap ?v loc = getFormatted h LM H ?v loc"
    by (rule getFormatted_of_tree [OF mht mHt])
  show ?case
  proof (cases "isIcuMessage heap ?v")
    case True
    from replaceInEntries_message [OF True run] obtain s ps where
      s: "getFormatted h LM heap ?v loc = Inr s" and
      rest: "replaceInEntries (replaceInObject d h LM loc) h LM loc
               (writeProperty heap (JRef a) k (JStr s)) (JRef a) (entriesOf kids)
               (AList.update (i18nId (asIcuMessage heap ?v))
                  (instancesOf paths (i18nId (asIcuMessage heap ?v)) @
                     [pathEntry (asIcuMessage heap ?v) ps])
                  paths) pre = Inr (heap', paths')"
      by blast
    let ?heap1 = "writeProperty heap (JRef a) k (JStr s)"
    let ?before = "before @ [(k, Leaf (JStr s))]"
    from writeProperty_Node [OF here keys idx, of "JStr s"]
    have written: "map_of ?heap1 = (map_of heap)(a \<mapsto> objectOf isArray (?before @ kids))"
      by simp
    have other: "map_of ?heap1 b = map_of heap b" if "b \<noteq> a" for b
      using that by (rule writeProperty_other)
    have "\<forall>b \<in> set (addrsAll kids). map_of ?heap1 b = map_of heap b"
    proof
      fix b
      assume "b \<in> set (addrsAll kids)"
      with ak have "b \<noteq> a" by blast
      then show "map_of ?heap1 b = map_of heap b" by (rule other)
    qed
    with mhk have mk1: "modelsAll ?heap1 kids" by (rule models_cong(2))
    from keys have keys1: "distinct (map fst (?before @ kids))" by simp
    from idx have idx1: "isArray \<longrightarrow>
        map fst (?before @ kids) = map indexString [0..<length (?before @ kids)]"
      by simp
    from written have here1: "map_of ?heap1 a = Some (objectOf isArray (?before @ kids))"
      by simp
    from "4.IH"(2) [OF mHk mk1 dk ak keys1 idx1 here1 rest]
    have frame: "\<forall>b. b \<notin> set (addrsAll kids) \<longrightarrow> b \<noteq> a \<longrightarrow> map_of heap' b = map_of ?heap1 b"
      and there: "map_of heap' a =
        Some (objectOf isArray (?before @ rewriteAll h LM loc H kids))"
      and kids': "modelsAll heap' (rewriteAll h LM loc H kids)"
      by simp_all
    from True same s fmt have new:
      "rewriteAll h LM loc H ((k, t) # kids) = (k, Leaf (JStr s)) # rewriteAll h LM loc H kids"
      by simp
    from frame other have "\<forall>b. b \<notin> set (addrsAll ((k, t) # kids)) \<longrightarrow> b \<noteq> a \<longrightarrow>
        map_of heap' b = map_of heap b"
      by simp
    moreover from there have "map_of heap' a =
        Some (objectOf isArray (before @ rewriteAll h LM loc H ((k, t) # kids)))"
      unfolding new by simp
    moreover from kids' have "modelsAll heap' (rewriteAll h LM loc H ((k, t) # kids))"
      unfolding new by simp
    ultimately show ?thesis by blast
  next
    case False
    from replaceInEntries_other [OF False run] obtain heap1 mid where
      child: "replaceInObject d h LM loc heap ?v paths (pre @ [k]) = Inr (heap1, mid)" and
      rest: "replaceInEntries (replaceInObject d h LM loc) h LM loc heap1 (JRef a)
               (entriesOf kids) mid pre = Inr (heap', paths')"
      by blast
    let ?t' = "rewrite h LM loc H t"
    let ?before = "before @ [(k, ?t')]"
    from "4.IH"(1) [OF mHt mht dt child]
    have frame1: "\<forall>b. b \<notin> set (addrs t) \<longrightarrow> map_of heap1 b = map_of heap b"
      and t': "models heap1 ?t'"
      by simp_all
    from frame1 disj have "\<forall>b \<in> set (addrsAll kids). map_of heap1 b = map_of heap b"
      by auto
    with mhk have mk1: "modelsAll heap1 kids" by (rule models_cong(2))
    from keys have keys1: "distinct (map fst (?before @ kids))" by simp
    from idx have idx1: "isArray \<longrightarrow>
        map fst (?before @ kids) = map indexString [0..<length (?before @ kids)]"
      by simp
    from frame1 at here have "map_of heap1 a = Some (objectOf isArray (before @ (k, t) # kids))"
      by simp
    then have here1: "map_of heap1 a = Some (objectOf isArray (?before @ kids))"
      using objectOf_rootval [OF rootval_rewrite, of isArray before k h LM loc H t kids]
      by simp
    from "4.IH"(2) [OF mHk mk1 dk ak keys1 idx1 here1 rest]
    have frame: "\<forall>b. b \<notin> set (addrsAll kids) \<longrightarrow> b \<noteq> a \<longrightarrow> map_of heap' b = map_of heap1 b"
      and there: "map_of heap' a =
        Some (objectOf isArray (?before @ rewriteAll h LM loc H kids))"
      and kids': "modelsAll heap' (rewriteAll h LM loc H kids)"
      by simp_all
    from False same have new:
      "rewriteAll h LM loc H ((k, t) # kids) = (k, ?t') # rewriteAll h LM loc H kids"
      by simp
    have "\<forall>b \<in> set (addrs ?t'). map_of heap' b = map_of heap1 b"
      using frame addrs_rewrite(1) [of h LM loc H t] disj at by blast
    with t' have "models heap' ?t'" by (rule models_cong(1))
    with kids' have "modelsAll heap' (rewriteAll h LM loc H ((k, t) # kids))"
      unfolding new by simp
    moreover from frame frame1 have "\<forall>b. b \<notin> set (addrsAll ((k, t) # kids)) \<longrightarrow> b \<noteq> a \<longrightarrow>
        map_of heap' b = map_of heap b"
      by simp
    moreover from there have "map_of heap' a =
        Some (objectOf isArray (before @ rewriteAll h LM loc H ((k, t) # kids)))"
      unfolding new by simp
    ultimately show ?thesis by blast
  qed
qed



lemma walkTree_Cons_same:
  "walkTree H (Node a isArray ((k, t) # kids)) (k # ks) =
     (if ks = [] then Some t else if isIcuMessage H (rootval t) then None else walkTree H t ks)"
  by (cases ks) simp_all

lemma walkTree_Cons_other:
  "key \<noteq> k \<Longrightarrow>
     walkTree H (Node a isArray ((k, t) # kids)) (key # ks) =
     walkTree H (Node a isArray kids) (key # ks)"
  by (cases ks) simp_all

lemma walkTree_Node:
  "walkTree H (Node a isArray kids) (key # ks) = walkTree H (Node b isArray' kids) (key # ks)"
  by (cases ks) simp_all



subsection \<open>Paths in a tree and in its heap\<close>




lemma walkPath_models:
  "models heap t \<Longrightarrow> walkPath heap (rootval t) p = map_option rootval (walkTree heap t p)"
proof (induction p arbitrary: t)
  case Nil
  then show ?case by simp
next
  case (Cons k ks)
  show ?case
  proof (cases t)
    case (Leaf v)
    with Cons.prems show ?thesis
      by (cases ks) (simp_all add: Object_entries_Leaf)
  next
    case (Node a isArray kids)
    with Cons.prems have node: "models heap (Node a isArray kids)" by simp
    note entries = Object_entries_Node [OF node]
    from node have all: "modelsAll heap kids" by simp
    show ?thesis
    proof (cases ks)
      case Nil
      with Node entries show ?thesis by (simp add: map_of_entriesOf)
    next
      case ks: (Cons k' ks')
      show ?thesis
      proof (cases "map_of kids k")
        case None
        with Node entries ks show ?thesis by (simp add: map_of_entriesOf)
      next
        case (Some c)
        from modelsAll_map_of [OF all Some] have "models heap c" .
        from Cons.IH [OF this] Some Node entries ks show ?thesis
          by (simp add: map_of_entriesOf)
      qed
    qed
  qed
qed




subsection \<open>The walk returns\<close>

lemma walkTree_key:
  "walkTree H (Node a isArray kids) (key # ks) = Some m \<Longrightarrow> key \<in> fst ` set kids"
  by (cases ks) (auto split: option.splits dest: map_of_SomeD intro: rev_image_eqI)

lemma walk_returns:
  "models H t \<Longrightarrow> models heap t \<Longrightarrow> distinct (addrs t) \<Longrightarrow> treeDepth t \<le> d \<Longrightarrow>
   (\<forall>p m. walkTree H t p = Some m \<longrightarrow> isIcuMessage H (rootval m) \<longrightarrow>
      (\<exists>s. getFormatted h LM H (rootval m) loc = Inr s) \<and>
      (\<exists>ps. formatPathAsString (pre @ p) = Inr ps)) \<Longrightarrow>
     \<exists>heap' paths'. replaceInObject d h LM loc heap (rootval t) paths pre = Inr (heap', paths')"
  "modelsAll H kids \<Longrightarrow> modelsAll heap kids \<Longrightarrow> distinct (addrsAll kids) \<Longrightarrow>
   a \<notin> set (addrsAll kids) \<Longrightarrow> distinct (map fst kids) \<Longrightarrow> treeDepthAll kids \<le> d \<Longrightarrow>
   (\<forall>key ks m. walkTree H (Node a isArray kids) (key # ks) = Some m \<longrightarrow>
      isIcuMessage H (rootval m) \<longrightarrow>
      (\<exists>s. getFormatted h LM H (rootval m) loc = Inr s) \<and>
      (\<exists>ps. formatPathAsString (pre @ key # ks) = Inr ps)) \<Longrightarrow>
     \<exists>heap' paths'.
       replaceInEntries (replaceInObject d h LM loc) h LM loc heap (JRef a) (entriesOf kids)
         paths pre = Inr (heap', paths')"
proof (induction t and kids
    arbitrary: d heap paths pre and d heap paths pre a isArray
    rule: addrs_addrsAll.induct)
  case (1 v)
  from "1.prems"(4) obtain d' where d: "d = Suc d'" by (cases d) simp_all
  with Object_entries_Leaf [OF "1.prems"(2)] show ?case by simp
next
  case (2 a isArray kids)
  from "2.prems"(4) obtain d' where d: "d = Suc d'" and below: "treeDepthAll kids \<le> d'"
    by (cases d) simp_all
  from "2.prems"(1) have mH: "modelsAll H kids" by simp
  from "2.prems"(2) have mh: "modelsAll heap kids" and keys: "distinct (map fst kids)"
    by simp_all
  from "2.prems"(3) have dist: "distinct (addrsAll kids)" and notin: "a \<notin> set (addrsAll kids)"
    by simp_all
  from "2.prems"(5) have ok:
    "\<forall>key ks m. walkTree H (Node a isArray kids) (key # ks) = Some m \<longrightarrow>
        isIcuMessage H (rootval m) \<longrightarrow>
        (\<exists>s. getFormatted h LM H (rootval m) loc = Inr s) \<and>
        (\<exists>ps. formatPathAsString (pre @ key # ks) = Inr ps)"
    by blast
  from "2.IH" [OF mH mh dist notin keys below ok, of paths] obtain heap' paths' where
    "replaceInEntries (replaceInObject d' h LM loc) h LM loc heap (JRef a) (entriesOf kids)
       paths pre = Inr (heap', paths')"
    by blast
  with d Object_entries_Node [OF "2.prems"(2)] show ?case
    by (simp add: isObjectOrArrayOfUnknownValues_def)
next
  case 3
  show ?case by (simp add: entriesOf_Nil)
next
  case (4 k t kids)
  let ?v = "rootval t"
  from "4.prems"(1) have mHt: "models H t" and mHk: "modelsAll H kids" by simp_all
  from "4.prems"(2) have mht: "models heap t" and mhk: "modelsAll heap kids" by simp_all
  from "4.prems"(3) have dt: "distinct (addrs t)" and dk: "distinct (addrsAll kids)"
    and disj: "set (addrs t) \<inter> set (addrsAll kids) = {}"
    by simp_all
  from "4.prems"(4) have at: "a \<notin> set (addrs t)" and ak: "a \<notin> set (addrsAll kids)"
    by simp_all
  from "4.prems"(5) have fresh: "k \<notin> fst ` set kids" and keys: "distinct (map fst kids)"
    by simp_all
  from "4.prems"(6) have deep: "treeDepth t \<le> d" and deeps: "treeDepthAll kids \<le> d"
    by simp_all
  note ok = "4.prems"(7)
  have same: "isIcuMessage heap ?v = isIcuMessage H ?v"
    by (rule isIcuMessage_of_tree [OF mht mHt])
  have fmt: "getFormatted h LM heap ?v loc = getFormatted h LM H ?v loc"
    by (rule getFormatted_of_tree [OF mht mHt])
  have rest_ok:
    "\<forall>key ks m. walkTree H (Node a isArray kids) (key # ks) = Some m \<longrightarrow>
        isIcuMessage H (rootval m) \<longrightarrow>
        (\<exists>s. getFormatted h LM H (rootval m) loc = Inr s) \<and>
        (\<exists>ps. formatPathAsString (pre @ key # ks) = Inr ps)"
  proof (intro allI impI)
    fix key ks m
    assume walk: "walkTree H (Node a isArray kids) (key # ks) = Some m"
      and msg: "isIcuMessage H (rootval m)"
    from walkTree_key [OF walk] fresh have "key \<noteq> k" by blast
    with walk have "walkTree H (Node a isArray ((k, t) # kids)) (key # ks) = Some m"
      by (simp add: walkTree_Cons_other)
    with ok msg show "(\<exists>s. getFormatted h LM H (rootval m) loc = Inr s) \<and>
        (\<exists>ps. formatPathAsString (pre @ key # ks) = Inr ps)"
      by blast
  qed
  show ?case
  proof (cases "isIcuMessage heap ?v")
    case True
    have "walkTree H (Node a isArray ((k, t) # kids)) [k] = Some t"
      by (simp add: walkTree_Cons_same)
    moreover from True same have "isIcuMessage H ?v" by simp
    ultimately have "(\<exists>s. getFormatted h LM H ?v loc = Inr s) \<and>
        (\<exists>ps. formatPathAsString (pre @ [k]) = Inr ps)"
      using ok by blast
    then obtain s ps where
      s: "getFormatted h LM H ?v loc = Inr s" and
      ps: "formatPathAsString (pre @ [k]) = Inr ps"
      by blast
    let ?heap1 = "writeProperty heap (JRef a) k (JStr s)"
    have "\<forall>b \<in> set (addrsAll kids). map_of ?heap1 b = map_of heap b"
    proof
      fix b
      assume "b \<in> set (addrsAll kids)"
      with ak have "b \<noteq> a" by blast
      then show "map_of ?heap1 b = map_of heap b" by (rule writeProperty_other)
    qed
    with mhk have mk1: "modelsAll ?heap1 kids" by (rule models_cong(2))
    from "4.IH"(2) [OF mHk mk1 dk ak keys deeps rest_ok] obtain heap' paths' where
      "replaceInEntries (replaceInObject d h LM loc) h LM loc ?heap1 (JRef a) (entriesOf kids)
         (AList.update (i18nId (asIcuMessage heap ?v))
            ((case map_of paths (i18nId (asIcuMessage heap ?v)) of Some l \<Rightarrow> l | None \<Rightarrow> []) @
               [case IcuMessage.values (asIcuMessage heap ?v) of
                  Some vs \<Rightarrow> ValuesAndPath vs ps
                | None \<Rightarrow> PathString ps])
            paths) pre = Inr (heap', paths')"
      by blast
    with True s ps fmt show ?thesis
      by (simp add: entriesOf_Cons Let_def)
  next
    case False
    have inner_ok:
      "\<forall>p m. walkTree H t p = Some m \<longrightarrow> isIcuMessage H (rootval m) \<longrightarrow>
         (\<exists>s. getFormatted h LM H (rootval m) loc = Inr s) \<and>
         (\<exists>ps. formatPathAsString ((pre @ [k]) @ p) = Inr ps)"
    proof (intro allI impI)
      fix p m
      assume walk: "walkTree H t p = Some m" and msg: "isIcuMessage H (rootval m)"
      from walk have "p \<noteq> []" by auto
      with walk False same have
        "walkTree H (Node a isArray ((k, t) # kids)) (k # p) = Some m"
        by (simp add: walkTree_Cons_same)
      with ok msg show "(\<exists>s. getFormatted h LM H (rootval m) loc = Inr s) \<and>
          (\<exists>ps. formatPathAsString ((pre @ [k]) @ p) = Inr ps)"
        by fastforce
    qed
    from "4.IH"(1) [OF mHt mht dt deep inner_ok, of paths] obtain heap1 mid where
      child: "replaceInObject d h LM loc heap ?v paths (pre @ [k]) = Inr (heap1, mid)"
      by blast
    from walk_models(1) [OF mHt mht dt child]
    have frame1: "\<forall>b. b \<notin> set (addrs t) \<longrightarrow> map_of heap1 b = map_of heap b"
      by simp
    with disj have "\<forall>b \<in> set (addrsAll kids). map_of heap1 b = map_of heap b"
      by auto
    with mhk have mk1: "modelsAll heap1 kids" by (rule models_cong(2))
    from "4.IH"(2) [OF mHk mk1 dk ak keys deeps rest_ok, of mid] obtain heap' paths' where
      "replaceInEntries (replaceInObject d h LM loc) h LM loc heap1 (JRef a) (entriesOf kids)
         mid pre = Inr (heap', paths')"
      by blast
    with False child show ?thesis
      by (simp add: entriesOf_Cons Let_def)
  qed
qed

text \<open>
  The walk of a document that is a tree returns when the call stack has room for the
  depth of the document, every message that the walk reaches can be formatted, and
  \<^verbatim>\<open>_formatPathAsString\<close> accepts the path to it.
\<close>

lemma replaceIcuMessages_returns:
  assumes "models heap document" and "distinct (addrs document)"
    and "treeDepth document \<le> callStackSize h"
    and "\<forall>p m. walkPath heap (rootval document) p = Some m \<longrightarrow> isIcuMessage heap m \<longrightarrow>
           (\<exists>s. getFormatted h LM heap m loc = Inr s) \<and>
           (\<exists>ps. formatPathAsString p = Inr ps)"
  shows "\<exists>heap' paths. replaceIcuMessages h LM heap (rootval document) loc = Inr (heap', paths)"
proof -
  have "\<forall>p m. walkTree heap document p = Some m \<longrightarrow> isIcuMessage heap (rootval m) \<longrightarrow>
      (\<exists>s. getFormatted h LM heap (rootval m) loc = Inr s) \<and>
      (\<exists>ps. formatPathAsString ([] @ p) = Inr ps)"
  proof (intro allI impI)
    fix p m
    assume walk: "walkTree heap document p = Some m" and msg: "isIcuMessage heap (rootval m)"
    from walkPath_models [OF assms(1), of p] walk
    have "walkPath heap (rootval document) p = Some (rootval m)" by simp
    with assms(4) msg show "(\<exists>s. getFormatted h LM heap (rootval m) loc = Inr s) \<and>
        (\<exists>ps. formatPathAsString ([] @ p) = Inr ps)"
      by simp
  qed
  from walk_returns(1) [OF assms(1) assms(1) assms(2) assms(3) this, of "[]"]
  show ?thesis by (simp add: replaceIcuMessages_def)
qed

subsection \<open>The store\<close>

lemma exported_store:
  "snd (exported h c LM) =
     (case c of Call_registerLocaleData l m \<Rightarrow> AList.update l m LM | _ \<Rightarrow> LM)"
  by (cases c) (simp_all add: registerLocaleData_def)

text \<open>
  C8, as amended. Every exported operation other than \<^verbatim>\<open>registerLocaleData\<close>
  leaves the message store as it was, so that no such call changes the outcome of any
  later call; \<^verbatim>\<open>registerLocaleData\<close> sets the messages of its locale.
\<close>

theorem exported_keeps_store:
  "(\<not> isRegisterLocaleData c \<longrightarrow>
      snd (exported h c LM) = LM \<and>
      (\<forall>c'. exported h c' (snd (exported h c LM)) = exported h c' LM)) \<and>
   snd (exported h (Call_registerLocaleData l m) LM) = AList.update l m LM"
proof (intro conjI impI allI)
  assume other: "\<not> isRegisterLocaleData c"
  then show kept: "snd (exported h c LM) = LM"
    by (cases c) (simp_all add: exported_store isRegisterLocaleData_def)
  fix c'
  from kept show "exported h c' (snd (exported h c LM)) = exported h c' LM"
    by simp
next
  show "snd (exported h (Call_registerLocaleData l m) LM) = AList.update l m LM"
    by (simp add: registerLocaleData_def)
qed

text \<open>
  Without the amendment the statement fails at \<^verbatim>\<open>registerLocaleData\<close>: it changes
  the store, and a message that could not be formatted before is formatted after it.
\<close>

theorem exported_keeps_store_counterexample:
  "exported exampleHost (Call_getFormatted exampleHeap (JRef 3) ''en-US'') [] =
     (Thrown (UnsupportedLocale ''en-US''), []) \<and>
   snd (exported exampleHost
          (Call_registerLocaleData ''en-US''
             [(''core/lib/x.js | greeting'', \<lparr>message = ''Hello {name}''\<rparr>)]) []) =
     [(''en-US'', [(''core/lib/x.js | greeting'', \<lparr>message = ''Hello {name}''\<rparr>)])] \<and>
   exported exampleHost (Call_getFormatted exampleHeap (JRef 3) ''en-US'')
     [(''en-US'', [(''core/lib/x.js | greeting'', \<lparr>message = ''Hello {name}''\<rparr>)])] =
     (Returned_string ''Hello World'',
      [(''en-US'', [(''core/lib/x.js | greeting'', \<lparr>message = ''Hello {name}''\<rparr>)])])"
  by code_simp

text \<open>An instance: a call of \<^verbatim>\<open>replaceIcuMessages\<close>, and a later call.\<close>

theorem exported_keeps_store_witness:
  "\<not> isRegisterLocaleData (Call_replaceIcuMessages exampleHeap (JRef 0) ''en-US'') \<and>
   snd (exported exampleHost (Call_replaceIcuMessages exampleHeap (JRef 0) ''en-US'')
          exampleMessages) = exampleMessages \<and>
   exported exampleHost (Call_getFormatted exampleHeap (JRef 3) ''en-US'')
     (snd (exported exampleHost (Call_replaceIcuMessages exampleHeap (JRef 0) ''en-US'')
             exampleMessages)) =
   exported exampleHost (Call_getFormatted exampleHeap (JRef 3) ''en-US'') exampleMessages"
  using exported_keeps_store
          [of "Call_replaceIcuMessages exampleHeap (JRef 0) ''en-US''" exampleHost
              exampleMessages]
  by (simp add: isRegisterLocaleData_def)

end
